theory Spec2Isabelle
  imports Main "HOL-Library.Char_ord" "HOL-Library.List_Lexorder"
begin

section \<open>A size-based rotating log writer (log.go)\<close>

text \<open>
  The Go package \<^verbatim>\<open>rollinglogger\<close> is one file, \<^verbatim>\<open>log.go\<close>: a \<^verbatim>\<open>Logger\<close> whose
  \<^verbatim>\<open>Write\<close> appends to a file and, when the file would grow past a maximum, closes it,
  compresses it into an archive beside it and starts a new one.

  The embedding is shallow. The logger is a record; each method takes the logger and the
  world (the file system, the clock, the outcome of every system call still to come, the
  calls made so far) and returns its Go results with the updated logger and world. Go's
  \<^verbatim>\<open>error\<close> results are \<open>error option\<close> (\<open>None\<close> is \<^verbatim>\<open>nil\<close>). The mutex of the logger
  serialises the calls of \<^verbatim>\<open>Write\<close>; the model is the sequential behaviour of one call
  after another and has no mutex.
\<close>

subsection \<open>Go's \<^verbatim>\<open>int\<close>\<close>

text \<open>
  Go's \<^verbatim>\<open>int\<close> is taken at 64 bits (amd64, arm64): a value is an \<open>int\<close> between
  \<open>- 2 ^ 63\<close> and \<open>2 ^ 63 - 1\<close>, and \<^verbatim>\<open>+\<close> and \<^verbatim>\<open>*\<close> wrap around silently.
\<close>

definition wrap64 :: "int \<Rightarrow> int" where
  "wrap64 x = signed_take_bit 63 x"

definition go_add :: "int \<Rightarrow> int \<Rightarrow> int" where
  "go_add a b = wrap64 (a + b)"

definition go_mul :: "int \<Rightarrow> int \<Rightarrow> int" where
  "go_mul a b = wrap64 (a * b)"

definition in_int64 :: "int \<Rightarrow> bool" where
  "in_int64 x = (- (2 ^ 63) \<le> x \<and> x < 2 ^ 63)"

subsection \<open>Constants and the logger\<close>

definition defaultMaxSize :: int where
  "defaultMaxSize = 100"

definition megabyte :: int where
  "megabyte = 1024 * 1024"

definition ext :: string where
  "ext = ''.gz''"

type_synonym path = string
type_synonym bytes = string

text \<open>\<^verbatim>\<open>*os.File\<close>: an open file, known by the path it was opened at.\<close>

datatype File = File path

text \<open>
  \<^verbatim>\<open>type Logger struct { Filename string; MaxSize int; size int; fd *os.File; mu sync.Mutex }\<close>.
  The field \<^verbatim>\<open>size\<close> is \<open>size_l\<close> here (\<open>size\<close> is a constant of HOL), and a \<^verbatim>\<open>nil\<close>
  \<^verbatim>\<open>fd\<close> is \<open>None\<close>.
\<close>

record Logger =
  Filename :: path
  MaxSize :: int
  size_l :: int
  fd :: "File option"

text \<open>
  \<^verbatim>\<open>func (l *Logger) max() int\<close>. The product \<^verbatim>\<open>defaultMaxSize * megabyte\<close> is a constant
  expression, computed exactly by the compiler; \<^verbatim>\<open>l.MaxSize * megabyte\<close> is computed at
  run time, in \<^verbatim>\<open>int\<close>.
\<close>

definition max_l :: "Logger \<Rightarrow> int" where
  "max_l l = (if MaxSize l = 0 then defaultMaxSize * megabyte
              else go_mul (MaxSize l) megabyte)"

subsection \<open>The world: files, clock, system calls\<close>

text \<open>
  A file on disk is its bytes and its permission bits. The file system maps a path to the
  file there. Only the logger changes it while a call runs.
\<close>

record file_node =
  data :: bytes
  perm :: nat

text \<open>\<^verbatim>\<open>os.FileInfo\<close>, as far as the logger reads it: \<^verbatim>\<open>Size()\<close> and \<^verbatim>\<open>Mode()\<close>.\<close>

record FileInfo =
  fi_size :: int
  fi_mode :: nat

text \<open>
  \<^verbatim>\<open>time.Time\<close> as \<^verbatim>\<open>time.Now()\<close> returns it, read in the local time zone: the fields
  that \<^verbatim>\<open>Format\<close> and \<^verbatim>\<open>Nanosecond\<close> print.
\<close>

record time =
  year :: nat
  month :: nat
  day :: nat
  hour :: nat
  minute :: nat
  second :: nat
  nanosecond :: nat

datatype os_error = ENOENT | EBADF | EINVAL | EIO nat

datatype flag = O_RDONLY | O_WRONLY | O_APPEND | O_CREATE | O_TRUNC

text \<open>The system calls a run makes, in order, each with the path it acts on.\<close>

datatype event =
    EvStat path
  | EvOpenFile path "flag list"
  | EvWrite path nat
  | EvClose path
  | EvRemove path
  | EvCopy path path
  | EvGzClose path

text \<open>
  An injected failure of a system call: the error number, and for a call that transfers
  bytes how many bytes went through before it failed.
\<close>

datatype fault = Fault nat nat

text \<open>
  The world. \<open>pending\<close> holds the outcome of each system call still to come, in order:
  \<open>None\<close> lets the call run on the file system as it is, \<open>Some (Fault e k)\<close> makes it fail
  (a full disk, a permission, a device error); when the list is empty every call runs.
  \<open>trace\<close> is the calls made so far. The compressor of \<^verbatim>\<open>compress/gzip\<close> is not part of
  the repository: \<open>gz_body\<close> is what a gzip writer has passed on to its file once it has
  been given a payload, and \<open>gz_tail\<close> what its \<^verbatim>\<open>Close\<close> adds (the rest of the
  stream and the trailer); no property below depends on what they are.
\<close>

record world =
  files :: "path \<rightharpoonup> file_node"
  now :: time
  pending :: "fault option list"
  trace :: "event list"
  gz_body :: "bytes \<Rightarrow> bytes"
  gz_tail :: "bytes \<Rightarrow> bytes"

text \<open>Every system call records itself and takes its outcome.\<close>

definition outcome :: "fault option list \<Rightarrow> fault option" where
  "outcome fs = (case fs of [] \<Rightarrow> None | f # _ \<Rightarrow> f)"

definition sys :: "event \<Rightarrow> world \<Rightarrow> fault option \<times> world" where
  "sys e w = (outcome (pending w), w\<lparr>trace := trace w @ [e], pending := tl (pending w)\<rparr>)"

definition os_Stat :: "path \<Rightarrow> world \<Rightarrow> (os_error + FileInfo) \<times> world" where
  "os_Stat p w =
     (case sys (EvStat p) w of
        (Some (Fault e k), w1) \<Rightarrow> (Inl (EIO e), w1)
      | (None, w1) \<Rightarrow>
          (case files w1 p of
             None \<Rightarrow> (Inl ENOENT, w1)
           | Some nd \<Rightarrow> (Inr \<lparr>fi_size = int (length (data nd)), fi_mode = perm nd\<rparr>, w1)))"

text \<open>
  \<^verbatim>\<open>os.OpenFile(name, flag, perm)\<close>: a missing file is created when \<^verbatim>\<open>O_CREATE\<close> is
  given (with \<open>perm\<close>) and is an error otherwise; an existing file is emptied when
  \<^verbatim>\<open>O_TRUNC\<close> is given and keeps its permission bits.
\<close>

definition os_OpenFile :: "path \<Rightarrow> flag list \<Rightarrow> nat \<Rightarrow> world \<Rightarrow> (os_error + File) \<times> world" where
  "os_OpenFile p flags pm w =
     (case sys (EvOpenFile p flags) w of
        (Some (Fault e k), w1) \<Rightarrow> (Inl (EIO e), w1)
      | (None, w1) \<Rightarrow>
          (case files w1 p of
             None \<Rightarrow>
               (if O_CREATE \<in> set flags
                then (Inr (File p), w1\<lparr>files := (files w1)(p \<mapsto> \<lparr>data = [], perm = pm\<rparr>)\<rparr>)
                else (Inl ENOENT, w1))
           | Some nd \<Rightarrow>
               (if O_TRUNC \<in> set flags
                then (Inr (File p), w1\<lparr>files := (files w1)(p \<mapsto> nd\<lparr>data := []\<rparr>)\<rparr>)
                else (Inr (File p), w1))))"

text \<open>\<^verbatim>\<open>os.Open(name)\<close> is \<^verbatim>\<open>OpenFile(name, O_RDONLY, 0)\<close>.\<close>

definition os_Open :: "path \<Rightarrow> world \<Rightarrow> (os_error + File) \<times> world" where
  "os_Open p w = os_OpenFile p [O_RDONLY] 0 w"

text \<open>
  \<^verbatim>\<open>(*os.File).Write\<close>. The logger's handles write at the end of the file: the active
  file is opened with \<^verbatim>\<open>O_APPEND\<close> or empty, and nothing else writes to it. A failing
  write may have put a part of the buffer on disk; it returns that count with the error.
\<close>

definition append_bytes :: "path \<Rightarrow> bytes \<Rightarrow> world \<Rightarrow> world" where
  "append_bytes p bs w =
     (case files w p of
        None \<Rightarrow> w
      | Some nd \<Rightarrow> w\<lparr>files := (files w)(p \<mapsto> nd\<lparr>data := data nd @ bs\<rparr>)\<rparr>)"

definition file_Write :: "File \<Rightarrow> bytes \<Rightarrow> world \<Rightarrow> (int \<times> os_error option) \<times> world" where
  "file_Write f bs w =
     (case f of File p \<Rightarrow>
       (case sys (EvWrite p (length bs)) w of
          (fault, w1) \<Rightarrow>
            (case files w1 p of
               None \<Rightarrow> ((0, Some EBADF), w1)
             | Some nd \<Rightarrow>
                 (case fault of
                    Some (Fault e k) \<Rightarrow>
                      ((int (min k (length bs)), Some (EIO e)), append_bytes p (take k bs) w1)
                  | None \<Rightarrow> ((int (length bs), None), append_bytes p bs w1)))))"

definition file_Close :: "File \<Rightarrow> world \<Rightarrow> os_error option \<times> world" where
  "file_Close f w =
     (case f of File p \<Rightarrow>
       (case sys (EvClose p) w of
          (Some (Fault e k), w1) \<Rightarrow> (Some (EIO e), w1)
        | (None, w1) \<Rightarrow> (None, w1)))"

definition os_Remove :: "path \<Rightarrow> world \<Rightarrow> os_error option \<times> world" where
  "os_Remove p w =
     (case sys (EvRemove p) w of
        (Some (Fault e k), w1) \<Rightarrow> (Some (EIO e), w1)
      | (None, w1) \<Rightarrow>
          (case files w1 p of
             None \<Rightarrow> (Some ENOENT, w1)
           | Some nd \<Rightarrow> (None, w1\<lparr>files := (files w1)(p := None)\<rparr>)))"

text \<open>
  \<^verbatim>\<open>gzip.NewWriter(gzf)\<close>, \<^verbatim>\<open>io.Copy(gz, file)\<close> and \<^verbatim>\<open>gz.Close()\<close>. The writer knows
  its file and the payload it has been given. The copy reads the source as it is on disk
  at that moment and passes the compressed bytes on; a failing copy has passed a part of
  them on.
\<close>

datatype GzWriter = GzWriter File bytes

definition gzip_NewWriter :: "File \<Rightarrow> GzWriter" where
  "gzip_NewWriter f = GzWriter f []"

definition io_Copy :: "GzWriter \<Rightarrow> File \<Rightarrow> world \<Rightarrow> (os_error option \<times> GzWriter) \<times> world" where
  "io_Copy gz src w =
     (case (gz, src) of (GzWriter (File dst) payload, File sp) \<Rightarrow>
       (case sys (EvCopy sp dst) w of
          (Some (Fault e k), w1) \<Rightarrow>
            (case files w1 sp of
               None \<Rightarrow> ((Some (EIO e), gz), w1)
             | Some nd \<Rightarrow>
                 ((Some (EIO e), GzWriter (File dst) (payload @ data nd)),
                  append_bytes dst (take k (gz_body w1 (data nd))) w1))
        | (None, w1) \<Rightarrow>
            (case files w1 sp of
               None \<Rightarrow> ((Some EBADF, gz), w1)
             | Some nd \<Rightarrow>
                 ((None, GzWriter (File dst) (payload @ data nd)),
                  append_bytes dst (gz_body w1 (data nd)) w1))))"

definition gz_Close :: "GzWriter \<Rightarrow> world \<Rightarrow> os_error option \<times> world" where
  "gz_Close gz w =
     (case gz of GzWriter (File dst) payload \<Rightarrow>
       (case sys (EvGzClose dst) w of
          (Some (Fault e k), w1) \<Rightarrow>
            (Some (EIO e), append_bytes dst (take k (gz_tail w1 payload)) w1)
        | (None, w1) \<Rightarrow> (None, append_bytes dst (gz_tail w1 payload) w1)))"

subsection \<open>Printing numbers and times\<close>

text \<open>\<^verbatim>\<open>%d\<close> of a number that is not negative: its decimal digits, no padding.\<close>

definition digit :: "nat \<Rightarrow> char" where
  "digit d = ''0123456789'' ! d"

fun dec :: "nat \<Rightarrow> string" where
  "dec n = (if n < 10 then [digit n] else dec (n div 10) @ [digit (n mod 10)])"

declare dec.simps [simp del]

text \<open>The decimal digits, filled with zeros on the left up to a width.\<close>

definition pad :: "nat \<Rightarrow> nat \<Rightarrow> string" where
  "pad width n = replicate (width - length (dec n)) (CHR ''0'') @ dec n"

definition timeFormat :: string where
  "timeFormat = ''2006-01-02-15-04-05''"

text \<open>
  \<^verbatim>\<open>(time.Time).Format(layout)\<close>, for the layout elements that \<^verbatim>\<open>timeFormat\<close> is made
  of: \<^verbatim>\<open>2006\<close> is the year on four digits, \<^verbatim>\<open>01\<close> the month, \<^verbatim>\<open>02\<close> the day,
  \<^verbatim>\<open>15\<close> the hour, \<^verbatim>\<open>04\<close> the minute and \<^verbatim>\<open>05\<close> the second on two digits each;
  any other character stands for itself.
\<close>

fun Format :: "time \<Rightarrow> string \<Rightarrow> string" where
  "Format t layout =
     (if layout = [] then []
      else if take 4 layout = ''2006'' then pad 4 (year t) @ Format t (drop 4 layout)
      else if take 2 layout = ''01'' then pad 2 (month t) @ Format t (drop 2 layout)
      else if take 2 layout = ''02'' then pad 2 (day t) @ Format t (drop 2 layout)
      else if take 2 layout = ''15'' then pad 2 (hour t) @ Format t (drop 2 layout)
      else if take 2 layout = ''04'' then pad 2 (minute t) @ Format t (drop 2 layout)
      else if take 2 layout = ''05'' then pad 2 (second t) @ Format t (drop 2 layout)
      else hd layout # Format t (tl layout))"

declare Format.simps [simp del]

subsection \<open>Paths (\<^verbatim>\<open>path/filepath\<close> on Unix)\<close>

text \<open>
  \<^verbatim>\<open>filepath.Clean\<close>, \<^verbatim>\<open>Dir\<close>, \<^verbatim>\<open>Base\<close> and \<^verbatim>\<open>Join\<close> are Go's library, here as its
  documentation gives them for the separator \<^verbatim>\<open>/\<close>. \<open>split_sep\<close> cuts a path at its
  separators and \<open>join_sep\<close> puts the elements together again.
\<close>

fun split_sep :: "string \<Rightarrow> string list" where
  "split_sep [] = [[]]"
| "split_sep (c # cs) =
     (if c = CHR ''/'' then [] # split_sep cs
      else (case split_sep cs of [] \<Rightarrow> [[c]] | x # xs \<Rightarrow> (c # x) # xs))"

fun join_sep :: "string list \<Rightarrow> string" where
  "join_sep [] = []"
| "join_sep [x] = x"
| "join_sep (x # y # ys) = x @ CHR ''/'' # join_sep (y # ys)"

text \<open>
  The loop of \<^verbatim>\<open>Clean\<close> over the elements of the path, the elements kept so far in
  reverse: an empty element and \<^verbatim>\<open>.\<close> are dropped; \<^verbatim>\<open>..\<close> removes the element before
  it, is dropped at the root, and is kept at the start of a path that is not rooted.
\<close>

fun clean_elems :: "bool \<Rightarrow> string list \<Rightarrow> string list \<Rightarrow> string list" where
  "clean_elems rooted out [] = rev out"
| "clean_elems rooted out (e # es) =
     (if e = [] \<or> e = ''.'' then clean_elems rooted out es
      else if e = ''..'' then
        (case out of
           [] \<Rightarrow> if rooted then clean_elems rooted [] es else clean_elems rooted [''..''] es
         | x # xs \<Rightarrow>
             if x = ''..'' then clean_elems rooted (''..'' # out) es
             else clean_elems rooted xs es)
      else clean_elems rooted (e # out) es)"

definition Clean :: "path \<Rightarrow> path" where
  "Clean p =
     (if p = [] then ''.''
      else
        (let rooted = (hd p = CHR ''/'');
             out = join_sep (clean_elems rooted [] (split_sep p))
         in if rooted then CHR ''/'' # out else if out = [] then ''.'' else out))"

text \<open>\<^verbatim>\<open>Dir\<close>: the path up to its last separator, cleaned.\<close>

definition Dir :: "path \<Rightarrow> path" where
  "Dir p = Clean (rev (dropWhile (\<lambda>c. c \<noteq> CHR ''/'') (rev p)))"

text \<open>\<^verbatim>\<open>Base\<close>: the last element of the path, trailing separators removed first.\<close>

definition Base :: "path \<Rightarrow> path" where
  "Base p =
     (if p = [] then ''.''
      else
        (let q = dropWhile (\<lambda>c. c = CHR ''/'') (rev p);
             b = rev (takeWhile (\<lambda>c. c \<noteq> CHR ''/'') q)
         in if b = [] then ''/'' else b))"

text \<open>\<^verbatim>\<open>Join\<close>: the elements from the first one that is not empty, joined and cleaned.\<close>

definition Join :: "path list \<Rightarrow> path" where
  "Join elem =
     (case dropWhile (\<lambda>e. e = []) elem of
        [] \<Rightarrow> []
      | e # es \<Rightarrow> Clean (join_sep (e # es)))"

subsection \<open>The methods of the logger\<close>

text \<open>
  The errors a method returns: the ones \<^verbatim>\<open>log.go\<close> makes with \<^verbatim>\<open>fmt.Errorf\<close> (the
  length check of \<^verbatim>\<open>Write\<close>, a failed stat, a failed open, a failed creation of the
  archive), and the errors of the library that it passes on as they are.
\<close>

datatype error =
    ErrTooLarge int
  | ErrStat path
  | ErrOpen path
  | ErrOpenCompressed
  | ErrOS os_error

text \<open>\<^verbatim>\<open>func (l *Logger) getBackupFileName() string\<close>; \<^verbatim>\<open>time.Now()\<close> reads the clock.\<close>

definition getBackupFileName :: "Logger \<Rightarrow> world \<Rightarrow> path" where
  "getBackupFileName l w =
     (let dir = Dir (Filename l);
          base = Base (Filename l);
          currentTime = now w
      in Join [dir, Format currentTime timeFormat @ ''-'' @ dec (nanosecond currentTime)
                      @ ''-'' @ base @ ext])"

text \<open>\<^verbatim>\<open>func (l *Logger) close() error\<close>\<close>

definition close_l :: "Logger \<Rightarrow> world \<Rightarrow> error option \<times> Logger \<times> world" where
  "close_l l w =
     (case fd l of
        None \<Rightarrow> (None, l, w)
      | Some f \<Rightarrow>
          (case file_Close f w of
             (err, w1) \<Rightarrow> (map_option ErrOS err, l\<lparr>fd := None\<rparr>, w1)))"

text \<open>\<^verbatim>\<open>func (l *Logger) openNewFile() error\<close>; the permission \<^verbatim>\<open>0755\<close> is 493.\<close>

definition openNewFile :: "Logger \<Rightarrow> world \<Rightarrow> error option \<times> Logger \<times> world" where
  "openNewFile l w =
     (case os_OpenFile (Filename l) [O_CREATE, O_WRONLY, O_TRUNC] 493 w of
        (Inl err, w1) \<Rightarrow> (Some (ErrOpen (Filename l)), l, w1)
      | (Inr file, w1) \<Rightarrow> (None, l\<lparr>fd := Some file, size_l := 0\<rparr>, w1))"

text \<open>
  \<^verbatim>\<open>func (l *Logger) composeFile() error\<close>. The two \<^verbatim>\<open>defer\<close>red calls run when the
  function returns, the later one first: \<^verbatim>\<open>gzf.Close()\<close> once the archive has been
  opened, then \<^verbatim>\<open>file.Close()\<close>; what they return is dropped.
\<close>

definition composeFile :: "Logger \<Rightarrow> world \<Rightarrow> error option \<times> world" where
  "composeFile l w =
     (case os_Open (Filename l) w of
        (Inl err, w1) \<Rightarrow> (Some (ErrOpen (Filename l)), w1)
      | (Inr file, w1) \<Rightarrow>
          (case os_Stat (Filename l) w1 of
             (Inl err, w2) \<Rightarrow> (Some (ErrStat (Filename l)), snd (file_Close file w2))
           | (Inr fileinfo, w2) \<Rightarrow>
               (let dst = getBackupFileName l w2 in
                case os_OpenFile dst [O_CREATE, O_TRUNC, O_WRONLY] (fi_mode fileinfo) w2 of
                  (Inl err, w3) \<Rightarrow> (Some ErrOpenCompressed, snd (file_Close file w3))
                | (Inr gzf, w3) \<Rightarrow>
                    (case io_Copy (gzip_NewWriter gzf) file w3 of
                       ((Some err, gz), w4) \<Rightarrow>
                         (Some (ErrOS err), snd (file_Close file (snd (file_Close gzf w4))))
                     | ((None, gz), w4) \<Rightarrow>
                         (case gz_Close gz w4 of
                            (Some err, w5) \<Rightarrow>
                              (Some (ErrOS err), snd (file_Close file (snd (file_Close gzf w5))))
                          | (None, w5) \<Rightarrow>
                              (case os_Remove (Filename l) w5 of
                                 (Some err, w6) \<Rightarrow>
                                   (Some (ErrOS err),
                                    snd (file_Close file (snd (file_Close gzf w6))))
                               | (None, w6) \<Rightarrow>
                                   (None, snd (file_Close file (snd (file_Close gzf w6))))))))))"

text \<open>\<^verbatim>\<open>func (l *Logger) makeNewFile() error\<close>\<close>

definition makeNewFile :: "Logger \<Rightarrow> world \<Rightarrow> error option \<times> Logger \<times> world" where
  "makeNewFile l w =
     (case close_l l w of
        (Some err, l1, w1) \<Rightarrow> (Some err, l1, w1)
      | (None, l1, w1) \<Rightarrow>
          (case composeFile l1 w1 of
             (Some err, w2) \<Rightarrow> (Some err, l1, w2)
           | (None, w2) \<Rightarrow> openNewFile l1 w2))"

text \<open>
  \<^verbatim>\<open>func (l *Logger) openFile(curlen int) error\<close>. \<^verbatim>\<open>os.IsNotExist(err)\<close> is the
  error \<open>ENOENT\<close>; \<^verbatim>\<open>int(fileinfo.Size())\<close> is the size itself, \<^verbatim>\<open>int\<close> being 64 bits.
\<close>

definition openFile :: "Logger \<Rightarrow> world \<Rightarrow> int \<Rightarrow> error option \<times> Logger \<times> world" where
  "openFile l w curlen =
     (case os_Stat (Filename l) w of
        (Inl ENOENT, w1) \<Rightarrow> openNewFile l w1
      | (Inl err, w1) \<Rightarrow> (Some (ErrStat (Filename l)), l, w1)
      | (Inr fileinfo, w1) \<Rightarrow>
          (if go_add (fi_size fileinfo) curlen \<ge> max_l l then makeNewFile l w1
           else
             (case os_OpenFile (Filename l) [O_WRONLY, O_APPEND] 493 w1 of
                (Inl err, w2) \<Rightarrow> (Some (ErrOpen (Filename l)), l, w2)
              | (Inr file, w2) \<Rightarrow>
                  (None, l\<lparr>fd := Some file, size_l := fi_size fileinfo\<rparr>, w2))))"

text \<open>
  \<^verbatim>\<open>func (l *Logger) Write(p []byte) (n int, err error)\<close>. The length of a slice is an
  \<^verbatim>\<open>int\<close> that is not negative. \<^verbatim>\<open>Write\<close> of a \<^verbatim>\<open>nil\<close> \<^verbatim>\<open>*os.File\<close> returns
  \<^verbatim>\<open>os.ErrInvalid\<close>.
\<close>

definition Write :: "Logger \<Rightarrow> world \<Rightarrow> bytes \<Rightarrow> (int \<times> error option) \<times> Logger \<times> world" where
  "Write l w p =
     (let cursize = int (length p) in
      if cursize > max_l l then ((0, Some (ErrTooLarge cursize)), l, w)
      else
        (case (if fd l = None then openFile l w cursize else (None, l, w)) of
           (Some err, l1, w1) \<Rightarrow> ((0, Some err), l1, w1)
         | (None, l1, w1) \<Rightarrow>
             (case (if go_add (size_l l1) cursize > max_l l1 then makeNewFile l1 w1
                    else (None, l1, w1)) of
                (Some err, l2, w2) \<Rightarrow> ((0, Some err), l2, w2)
              | (None, l2, w2) \<Rightarrow>
                  (case fd l2 of
                     None \<Rightarrow> ((0, Some (ErrOS EINVAL)), l2, w2)
                   | Some file \<Rightarrow>
                       (case file_Write file p w2 of
                          ((n, Some err), w3) \<Rightarrow> ((0, Some (ErrOS err)), l2, w3)
                        | ((n, None), w3) \<Rightarrow>
                            ((n, None), l2\<lparr>size_l := go_add (size_l l2) n\<rparr>, w3))))))"

subsection \<open>Auxiliary notions for the properties\<close>

text \<open>
  An element of a path that \<^verbatim>\<open>Clean\<close> keeps as it is, and the text that \<^verbatim>\<open>Join\<close> puts
  before a name when it joins it to the directory \<open>d\<close>: nothing for the directory \<^verbatim>\<open>.\<close>,
  \<^verbatim>\<open>/\<close> for the root, and the cleaned directory with a separator otherwise.
\<close>

definition normal_elem :: "string \<Rightarrow> bool" where
  "normal_elem e = (e \<noteq> [] \<and> e \<noteq> ''.'' \<and> e \<noteq> ''..'')"

definition join_prefix :: "path \<Rightarrow> path" where
  "join_prefix d =
     (let rooted = (hd d = CHR ''/'');
          kept = clean_elems rooted [] (split_sep d)
      in (if rooted then ''/'' else []) @ (if kept = [] then [] else join_sep kept @ ''/''))"

text \<open>The characters that \<open>dec\<close> and \<open>pad\<close> print.\<close>

definition digit_chars :: "char set" where
  "digit_chars = set ''0123456789''"



subsection \<open>Example values\<close>

text \<open>
  A logger for \<^verbatim>\<open>/var/log/app.log\<close> with a maximum of one megabyte, not yet opened; a
  clock reading; and a world with no file, no failure to come, and a compressor that
  stores the payload between two marks.
\<close>

definition ex_logger :: Logger where
  "ex_logger = \<lparr>Filename = ''/var/log/app.log'', MaxSize = 1, size_l = 0, fd = None\<rparr>"

definition ex_time :: time where
  "ex_time = \<lparr>year = 2024, month = 3, day = 5, hour = 7, minute = 8, second = 9,
              nanosecond = 42\<rparr>"

definition ex_world :: world where
  "ex_world = \<lparr>files = Map.empty, now = ex_time, pending = [], trace = [],
               gz_body = (\<lambda>d. ''gz['' @ d), gz_tail = (\<lambda>d. '']'')\<rparr>"

text \<open>
  What every system call does to the world besides its effect on the files: it records
  itself and takes its outcome; the clock and the compressor stay as they are.
\<close>

definition after_call :: "event \<Rightarrow> world \<Rightarrow> world \<Rightarrow> bool" where
  "after_call e w w' =
     (trace w' = trace w @ [e] \<and> pending w' = tl (pending w) \<and> now w' = now w \<and>
      gz_body w' = gz_body w \<and> gz_tail w' = gz_tail w)"

text \<open>In a list of calls, \<open>a\<close> occurs before the first occurrence of \<open>b\<close>.\<close>

definition occurs_before :: "'a \<Rightarrow> 'a \<Rightarrow> 'a list \<Rightarrow> bool" where
  "occurs_before a b xs = (b \<in> set xs \<and> a \<in> set (takeWhile (\<lambda>x. x \<noteq> b) xs))"

text \<open>The example world with a log file of five bytes at the path of the example logger.\<close>

definition ex_world_file :: world where
  "ex_world_file =
     ex_world\<lparr>files := [''/var/log/app.log'' \<mapsto> \<lparr>data = ''hello'', perm = 420\<rparr>]\<rparr>"

text \<open>
  \<open>later w w'\<close>: the world \<open>w'\<close> is \<open>w\<close> after some system calls. The calls of \<open>w\<close> are
  the first calls of \<open>w'\<close>, the outcomes still to come in \<open>w'\<close> are the last ones of \<open>w\<close>,
  and the clock and the compressor are the same.
\<close>

definition later :: "world \<Rightarrow> world \<Rightarrow> bool" where
  "later w w' =
     ((\<exists>evs. trace w' = trace w @ evs) \<and> (\<exists>n. pending w' = drop n (pending w)) \<and>
      now w' = now w \<and> gz_body w' = gz_body w \<and> gz_tail w' = gz_tail w)"

text \<open>
  The part of \<^verbatim>\<open>Write\<close> between the length check and the append (lines 35 to 47 of
  \<^verbatim>\<open>log.go\<close>): open a file when none is open, rotate when the buffer does not fit.
\<close>

definition Write_prepare :: "Logger \<Rightarrow> world \<Rightarrow> int \<Rightarrow> error option \<times> Logger \<times> world" where
  "Write_prepare l w cursize =
     (case (if fd l = None then openFile l w cursize else (None, l, w)) of
        (Some err, l1, w1) \<Rightarrow> (Some err, l1, w1)
      | (None, l1, w1) \<Rightarrow>
          (if go_add (size_l l1) cursize > max_l l1 then makeNewFile l1 w1 else (None, l1, w1)))"

text \<open>
  The example logger after it has written \<^verbatim>\<open>hello\<close> to a new file, with the world as
  that write leaves it. The example logger with its file half full (524288 bytes
  \<^verbatim>\<open>a\<close>), and with its file full (then 524288 bytes \<^verbatim>\<open>b\<close>, the maximum reached), each
  with its world.
\<close>

definition ex_logger5 :: Logger where
  "ex_logger5 = ex_logger\<lparr>size_l := 5, fd := Some (File ''/var/log/app.log'')\<rparr>"

definition ex_world5 :: world where
  "ex_world5 =
     ex_world\<lparr>files := [''/var/log/app.log'' \<mapsto> \<lparr>data = ''hello'', perm = 493\<rparr>],
       trace := [EvStat ''/var/log/app.log'',
                 EvOpenFile ''/var/log/app.log'' [O_CREATE, O_WRONLY, O_TRUNC],
                 EvWrite ''/var/log/app.log'' 5]\<rparr>"

definition ex_logger_half :: Logger where
  "ex_logger_half = ex_logger\<lparr>size_l := 524288, fd := Some (File ''/var/log/app.log'')\<rparr>"

definition ex_world_half :: world where
  "ex_world_half =
     ex_world\<lparr>files := [''/var/log/app.log'' \<mapsto>
       \<lparr>data = replicate 524288 (CHR ''a''), perm = 493\<rparr>]\<rparr>"

definition ex_logger_full :: Logger where
  "ex_logger_full = ex_logger\<lparr>size_l := 1048576, fd := Some (File ''/var/log/app.log'')\<rparr>"

definition ex_world_full :: world where
  "ex_world_full =
     ex_world\<lparr>files := [''/var/log/app.log'' \<mapsto>
         \<lparr>data = replicate 524288 (CHR ''a'') @ replicate 524288 (CHR ''b''), perm = 493\<rparr>],
       trace := [EvWrite ''/var/log/app.log'' 524288]\<rparr>"

text \<open>
  The number of bytes of the file at a path, 0 when there is none. The logger and the disk
  agree when no handle is open, or the handle is on the file at \<^verbatim>\<open>Filename\<close>, the file
  exists, and \<^verbatim>\<open>size\<close> is its size. The sizes are in range when the maximum and the
  file at \<^verbatim>\<open>Filename\<close> are below \<open>2 ^ 62\<close> bytes, so that no sum of a size and a
  buffer within the maximum leaves \<^verbatim>\<open>int\<close>. A schedule of outcomes has no partial
  transfer when every failure in it fails before any byte is transferred.
\<close>

definition file_len :: "world \<Rightarrow> path \<Rightarrow> int" where
  "file_len w p = (case files w p of None \<Rightarrow> 0 | Some nd \<Rightarrow> int (length (data nd)))"










section \<open>Properties\<close>

subsection \<open>Arithmetic of \<^verbatim>\<open>int\<close>\<close>

lemma wrap64_id: "in_int64 x \<Longrightarrow> wrap64 x = x"
  unfolding wrap64_def in_int64_def
  by (simp add: signed_take_bit_int_eq_self)

lemma wrap64_range: "in_int64 (wrap64 x)"
  unfolding wrap64_def in_int64_def
  using signed_take_bit_int_less_exp [of 63 x] signed_take_bit_int_greater_eq_minus_exp [of 63 x]
  by simp

lemma go_add_exact: "in_int64 (a + b) \<Longrightarrow> go_add a b = a + b"
  by (simp add: go_add_def wrap64_id)

lemma go_add_0 [simp]: "in_int64 b \<Longrightarrow> go_add 0 b = b"
  by (simp add: go_add_def wrap64_id)

subsection \<open>The maximum of the policy\<close>

text \<open>
  C9 (as amended). With \<^verbatim>\<open>MaxSize\<close> zero the maximum is 100 * 1024 * 1024 bytes. With
  \<^verbatim>\<open>MaxSize\<close> not zero it is the product \<^verbatim>\<open>MaxSize * 1024 * 1024\<close> as a 64-bit
  \<^verbatim>\<open>int\<close> computes it: the product itself when \<^verbatim>\<open>MaxSize\<close> lies between \<open>- 2 ^ 43\<close>
  and \<open>2 ^ 43 - 1\<close>, and the product wrapped around modulo \<open>2 ^ 64\<close> in general.
\<close>

theorem max_l_bytes:
  "(MaxSize l = 0 \<longrightarrow> max_l l = 100 * 1024 * 1024) \<and>
   (MaxSize l \<noteq> 0 \<longrightarrow> max_l l = wrap64 (MaxSize l * 1024 * 1024)) \<and>
   (MaxSize l \<noteq> 0 \<longrightarrow> - (2 ^ 43) \<le> MaxSize l \<longrightarrow> MaxSize l < 2 ^ 43 \<longrightarrow>
      max_l l = MaxSize l * 1024 * 1024)"
proof -
  have "wrap64 (MaxSize l * 1048576) = MaxSize l * 1048576"
    if "- (2 ^ 43) \<le> MaxSize l" "MaxSize l < 2 ^ 43"
    using that by (intro wrap64_id) (simp add: in_int64_def)
  then show ?thesis
    by (simp add: max_l_def go_mul_def defaultMaxSize_def megabyte_def mult.commute)
qed

theorem max_l_bytes_witness:
  "max_l \<lparr>Filename = ''app.log'', MaxSize = 0, size_l = 0, fd = None\<rparr> = 104857600 \<and>
   max_l \<lparr>Filename = ''app.log'', MaxSize = 3, size_l = 0, fd = None\<rparr> = 3145728"
  using max_l_bytes [of "\<lparr>Filename = ''app.log'', MaxSize = 0, size_l = 0, fd = None\<rparr>"]
    max_l_bytes [of "\<lparr>Filename = ''app.log'', MaxSize = 3, size_l = 0, fd = None\<rparr>"]
  by simp

text \<open>
  C9 as it is written fails where the product leaves the range of \<^verbatim>\<open>int\<close>: with
  \<^verbatim>\<open>MaxSize\<close> \<open>2 ^ 43\<close> the maximum is \<open>- 2 ^ 63\<close>, not \<open>2 ^ 63\<close>.
\<close>

theorem max_l_overflow:
  "max_l \<lparr>Filename = ''app.log'', MaxSize = 8796093022208, size_l = 0, fd = None\<rparr>
     = - 9223372036854775808 \<and>
   max_l \<lparr>Filename = ''app.log'', MaxSize = 8796093022208, size_l = 0, fd = None\<rparr>
     \<noteq> 8796093022208 * 1024 * 1024"
  by (simp add: max_l_def go_mul_def wrap64_def megabyte_def)

subsection \<open>Paths\<close>

lemma split_sep_ne [simp]: "split_sep s \<noteq> []"
  by (induction s) (auto split: list.splits)

lemma split_sep_append: "split_sep (a @ CHR ''/'' # b) = split_sep a @ split_sep b"
  by (induction a) (auto split: list.splits)

lemma split_sep_noslash: "CHR ''/'' \<notin> set s \<Longrightarrow> split_sep s = [s]"
  by (induction s) auto

lemma join_sep_Cons: "join_sep ((c # x) # xs) = c # join_sep (x # xs)"
  by (cases xs) auto

lemma join_split: "join_sep (split_sep s) = s"
  by (induction s) (auto split: list.splits simp: join_sep_Cons)

lemma clean_elems_append:
  "clean_elems r out (xs @ ys) = clean_elems r (rev (clean_elems r out xs)) ys"
proof (induction xs arbitrary: out r)
  case Nil
  show ?case by simp
next
  case (Cons e es)
  show ?case
    by (cases out) (simp_all add: Cons.IH)
qed

lemma clean_elems_normal:
  "\<forall>e\<in>set ys. normal_elem e \<Longrightarrow> clean_elems r out ys = rev out @ ys"
  by (induction ys arbitrary: out) (auto simp: normal_elem_def)

lemma join_sep_append:
  "xs \<noteq> [] \<Longrightarrow> ys \<noteq> [] \<Longrightarrow> join_sep (xs @ ys) = join_sep xs @ CHR ''/'' # join_sep ys"
proof (induction xs rule: join_sep.induct)
  case 1
  then show ?case by simp
next
  case (2 x)
  then show ?case by (cases ys) simp_all
next
  case (3 x y zs)
  then show ?case by simp
qed

lemma Clean_ne [simp]: "Clean p \<noteq> []"
  by (simp add: Clean_def Let_def)

lemma normal_elems_ne:
  assumes "\<forall>e\<in>set (split_sep n). normal_elem e"
  shows "n \<noteq> []"
proof
  assume "n = []"
  then have "[] \<in> set (split_sep n)" by simp
  with assms have "normal_elem []" by blast
  then show False by (simp add: normal_elem_def)
qed

lemma Clean_append_normal:
  assumes "d \<noteq> []" "\<forall>e\<in>set (split_sep n). normal_elem e"
  shows "Clean (d @ CHR ''/'' # n) = join_prefix d @ n"
proof -
  define r where "r = (hd d = CHR ''/'')"
  define kept where "kept = clean_elems r [] (split_sep d)"
  have n: "n \<noteq> []" using assms(2) by (rule normal_elems_ne)
  have elems: "clean_elems r [] (split_sep (d @ CHR ''/'' # n)) = kept @ split_sep n"
    unfolding kept_def
    by (simp only: split_sep_append clean_elems_append clean_elems_normal [OF assms(2)] rev_rev_ident)
  have out: "join_sep (kept @ split_sep n)
      = (if kept = [] then n else join_sep kept @ CHR ''/'' # n)"
    by (simp add: join_sep_append join_split)
  have hd: "hd (d @ CHR ''/'' # n) = hd d" using assms(1) by simp
  have "Clean (d @ CHR ''/'' # n)
      = (if r then CHR ''/'' # join_sep (kept @ split_sep n)
         else if join_sep (kept @ split_sep n) = [] then ''.''
         else join_sep (kept @ split_sep n))"
    unfolding Clean_def Let_def hd r_def [symmetric] elems by simp
  also have "\<dots> = (if r then ''/'' else []) @ (if kept = [] then [] else join_sep kept @ ''/'') @ n"
    unfolding out using n by simp
  also have "\<dots> = join_prefix d @ n"
    unfolding join_prefix_def Let_def r_def [symmetric] kept_def [symmetric] by simp
  finally show ?thesis .
qed

lemma Join_dir_normal:
  assumes "d \<noteq> []" "\<forall>e\<in>set (split_sep n). normal_elem e"
  shows "Join [d, n] = join_prefix d @ n"
  using assms by (simp add: Join_def Clean_append_normal)

subsection \<open>Digits\<close>






lemma digit_mem: "d < 10 \<Longrightarrow> digit d \<in> digit_chars"
  unfolding digit_def digit_chars_def by (rule nth_mem) simp

lemma sep_not_digit: "CHR ''/'' \<notin> digit_chars" "CHR ''-'' \<notin> digit_chars"
  by (simp_all add: digit_chars_def)

lemma dec_ne [simp]: "dec n \<noteq> []"
  by (subst dec.simps) simp

lemma dec_set: "set (dec n) \<subseteq> digit_chars"
proof (induction n rule: dec.induct)
  case (1 n)
  show ?case
  proof (cases "n < 10")
    case True
    then have "dec n = [digit n]" by (subst dec.simps) simp
    with True digit_mem [of n] show ?thesis by simp
  next
    case False
    then have *: "dec n = dec (n div 10) @ [digit (n mod 10)]" by (subst dec.simps) simp
    have "digit (n mod 10) \<in> digit_chars" by (rule digit_mem) simp
    with 1 [OF False] show ?thesis unfolding * by simp
  qed
qed

lemma pad_set: "set (pad k n) \<subseteq> digit_chars"
proof -
  have "CHR ''0'' \<in> digit_chars" by (simp add: digit_chars_def)
  with dec_set [of n] show ?thesis by (auto simp: pad_def)
qed














subsection \<open>The name of the archive\<close>

lemma Format_timeFormat:
  "Format t timeFormat =
     pad 4 (year t) @ ''-'' @ pad 2 (month t) @ ''-'' @ pad 2 (day t) @ ''-'' @
     pad 2 (hour t) @ ''-'' @ pad 2 (minute t) @ ''-'' @ pad 2 (second t)"
  by (simp add: timeFormat_def Format.simps)

lemma Format_chars: "set (Format t timeFormat) \<subseteq> insert (CHR ''-'') digit_chars"
  using pad_set [of 4 "year t"] pad_set [of 2 "month t"] pad_set [of 2 "day t"]
    pad_set [of 2 "hour t"] pad_set [of 2 "minute t"] pad_set [of 2 "second t"]
  by (auto simp: Format_timeFormat)

lemma Base_slash: "CHR ''/'' \<in> set (Base p) \<Longrightarrow> Base p = ''/''"
  by (auto simp: Base_def Let_def split: if_splits dest: set_takeWhileD)

lemma Base_root:
  assumes "Base p = ''/''"
  shows "p \<noteq> [] \<and> last p = CHR ''/''"
proof -
  let ?q = "dropWhile (\<lambda>c. c = CHR ''/'') (rev p)"
  from assms have p: "p \<noteq> []" by (auto simp: Base_def)
  have "CHR ''/'' \<notin> set (takeWhile (\<lambda>c. c \<noteq> CHR ''/'') ?q)"
    by (auto dest: set_takeWhileD)
  with assms p have "takeWhile (\<lambda>c. c \<noteq> CHR ''/'') ?q = []"
    by (auto simp: Base_def Let_def split: if_splits)
  then have "?q = [] \<or> hd ?q = CHR ''/''"
    by (cases ?q) (auto split: if_splits)
  moreover have "?q \<noteq> [] \<Longrightarrow> hd ?q \<noteq> CHR ''/''"
    using hd_dropWhile [of "\<lambda>c. c = CHR ''/''" "rev p"] by simp
  ultimately have "?q = []" by blast
  then have "\<forall>c\<in>set (rev p). c = CHR ''/''" by (simp add: dropWhile_eq_Nil_conv)
  with p show ?thesis by (simp add: last_in_set)
qed

lemma Base_append:
  assumes "n \<noteq> []" "CHR ''/'' \<notin> set n" "pre = [] \<or> last pre = CHR ''/''"
  shows "Base (pre @ n) = n"
proof -
  from assms(1) obtain c cs where r: "rev n = c # cs" by (cases "rev n") auto
  then have c: "c \<noteq> CHR ''/''" using assms(2) by (metis list.set_intros(1) set_rev)
  have all: "\<forall>x\<in>set (rev n). x \<noteq> CHR ''/''" using assms(2) by auto
  have q: "dropWhile (\<lambda>c. c = CHR ''/'') (rev (pre @ n)) = rev n @ rev pre"
    using r c by simp
  have "takeWhile (\<lambda>c. c \<noteq> CHR ''/'') (rev pre) = []"
    using assms(3) by (cases "rev pre") (auto simp: last_rev [symmetric] simp del: last_rev)
  moreover have "takeWhile (\<lambda>c. c \<noteq> CHR ''/'') (rev n @ rev pre)
      = rev n @ takeWhile (\<lambda>c. c \<noteq> CHR ''/'') (rev pre)"
    by (rule takeWhile_append2) (use all in blast)
  ultimately have "takeWhile (\<lambda>c. c \<noteq> CHR ''/'') (rev n @ rev pre) = rev n"
    by simp
  with q assms(1) show ?thesis by (simp add: Base_def Let_def)
qed

lemma join_prefix_last: "join_prefix d = [] \<or> last (join_prefix d) = CHR ''/''"
  by (simp add: join_prefix_def Let_def)


lemma dash_normal: "CHR ''-'' \<in> set e \<Longrightarrow> normal_elem e"
  by (auto simp: normal_elem_def)

lemma backup_name_normal:
  "\<forall>e\<in>set (split_sep (Format t timeFormat @ ''-'' @ dec k @ ''-'' @ Base p @ ext)). normal_elem e"
proof -
  define X where "X = Format t timeFormat @ ''-'' @ dec k @ ''-''"
  have X: "CHR ''/'' \<notin> set X" "CHR ''-'' \<in> set X"
    using Format_chars [of t] dec_set [of k] sep_not_digit by (auto simp: X_def)
  have name: "Format t timeFormat @ ''-'' @ dec k @ ''-'' @ Base p @ ext = X @ Base p @ ''.gz''"
    by (simp add: X_def ext_def)
  show ?thesis
  proof (cases "CHR ''/'' \<in> set (Base p)")
    case True
    then have "Base p = ''/''" by (rule Base_slash)
    then have "X @ Base p @ ''.gz'' = X @ CHR ''/'' # ''.gz''" by simp
    then have "split_sep (X @ Base p @ ''.gz'') = [X, ''.gz'']"
      using X(1) by (simp only: split_sep_append) (simp add: split_sep_noslash)
    with X(2) show ?thesis
      unfolding name by (simp add: dash_normal) (simp add: normal_elem_def)
  next
    case False
    with X(1) have "CHR ''/'' \<notin> set (X @ Base p @ ''.gz'')" by simp
    then have "split_sep (X @ Base p @ ''.gz'') = [X @ Base p @ ''.gz'']"
      by (rule split_sep_noslash)
    moreover have "normal_elem (X @ Base p @ ''.gz'')"
      using X(2) by (intro dash_normal) simp
    ultimately show ?thesis unfolding name by simp
  qed
qed

lemma getBackupFileName_eq:
  "getBackupFileName l w =
     join_prefix (Dir (Filename l)) @ Format (now w) timeFormat @ ''-'' @
     dec (nanosecond (now w)) @ ''-'' @ Base (Filename l) @ ext"
proof -
  have "Dir (Filename l) \<noteq> []" by (simp add: Dir_def)
  then show ?thesis
    unfolding getBackupFileName_def Let_def
    by (rule Join_dir_normal) (rule backup_name_normal)
qed

lemma getBackupFileName_neq: "getBackupFileName l w \<noteq> Filename l"
proof
  let ?f = "Filename l"
  let ?X = "Format (now w) timeFormat @ ''-'' @ dec (nanosecond (now w)) @ ''-''"
  let ?n = "?X @ Base ?f @ ''.gz''"
  assume "getBackupFileName l w = ?f"
  then have eq: "join_prefix (Dir ?f) @ ?n = ?f"
    by (simp add: getBackupFileName_eq ext_def)
  have X: "CHR ''/'' \<notin> set ?X"
    using Format_chars [of "now w"] dec_set [of "nanosecond (now w)"] sep_not_digit by auto
  show False
  proof (cases "CHR ''/'' \<in> set (Base ?f)")
    case True
    then have "Base ?f = ''/''" by (rule Base_slash)
    then have "last ?f = CHR ''/''" using Base_root by blast
    moreover have "last (join_prefix (Dir ?f) @ ?n) = CHR ''z''" by simp
    moreover have "last (join_prefix (Dir ?f) @ ?n) = last ?f" by (simp only: eq)
    ultimately have "CHR ''z'' = CHR ''/''" by (simp only:)
    then show False by simp
  next
    case False
    with X have slash: "CHR ''/'' \<notin> set ?n" by simp
    have ne: "?n \<noteq> []" by simp
    have "Base (join_prefix (Dir ?f) @ ?n) = ?n"
      by (rule Base_append [OF ne slash join_prefix_last])
    with eq have "Base ?f = ?n" by simp
    then have "length (Base ?f) = length ?n" by simp
    then show False by simp
  qed
qed


lemma ex_prefix: "join_prefix (Dir (Filename ex_logger)) = ''/var/log/''"
  by (simp add: ex_logger_def Dir_def Clean_def join_prefix_def)

lemma ex_base: "Base (Filename ex_logger) = ''app.log''"
  by (simp add: ex_logger_def Base_def)





subsection \<open>The system calls\<close>

lemma after_call_sys [simp]: "after_call e w (snd (sys e w))"
  by (simp add: after_call_def sys_def)

lemma files_sys [simp]: "files (snd (sys e w)) = files w"
  by (simp add: sys_def)

lemma fst_sys [simp]: "fst (sys e w) = outcome (pending w)"
  by (simp add: sys_def)

lemma after_call_append_bytes [simp]:
  "after_call e w (append_bytes p bs w') = after_call e w w'"
  by (simp add: after_call_def append_bytes_def split: option.splits)

lemma files_append_bytes:
  "files (append_bytes p bs w) =
     (case files w p of None \<Rightarrow> files w
      | Some nd \<Rightarrow> (files w)(p \<mapsto> nd\<lparr>data := data nd @ bs\<rparr>))"
  by (simp add: append_bytes_def split: option.splits)

lemma files_append_bytes_other [simp]:
  "q \<noteq> p \<Longrightarrow> files (append_bytes p bs w) q = files w q"
  by (simp add: files_append_bytes split: option.splits)

lemma append_bytes_Nil [simp]: "append_bytes p [] w = w"
  by (simp add: append_bytes_def fun_upd_idem split: option.splits)

lemma os_Stat_call: "os_Stat p w = (r, w') \<Longrightarrow> after_call (EvStat p) w w' \<and> files w' = files w"
  by (auto simp: split_beta os_Stat_def split: option.splits fault.splits)

lemma os_Stat_Inr:
  "os_Stat p w = (Inr fi, w') \<Longrightarrow>
   outcome (pending w) = None \<and>
   (\<exists>nd. files w p = Some nd \<and> fi = \<lparr>fi_size = int (length (data nd)), fi_mode = perm nd\<rparr>)"
  by (auto simp: split_beta os_Stat_def split: option.splits fault.splits)

lemma os_Stat_ENOENT: "os_Stat p w = (Inl ENOENT, w') \<Longrightarrow> files w p = None"
  by (auto simp: split_beta os_Stat_def split: option.splits fault.splits)

lemma os_Stat_ok:
  "outcome (pending w) = None \<Longrightarrow> files w p = Some nd \<Longrightarrow>
   os_Stat p w = (Inr \<lparr>fi_size = int (length (data nd)), fi_mode = perm nd\<rparr>, snd (sys (EvStat p) w))"
  by (simp add: split_beta os_Stat_def )

lemma os_Stat_missing:
  "outcome (pending w) = None \<Longrightarrow> files w p = None \<Longrightarrow>
   os_Stat p w = (Inl ENOENT, snd (sys (EvStat p) w))"
  by (simp add: split_beta os_Stat_def )


lemma os_OpenFile_call:
  "os_OpenFile p fl pm w = (r, w') \<Longrightarrow>
   after_call (EvOpenFile p fl) w w' \<and> (\<forall>q. q \<noteq> p \<longrightarrow> files w' q = files w q)"
  by (auto simp: split_beta os_OpenFile_def after_call_def sys_def
      split: option.splits fault.splits if_splits)

lemma os_OpenFile_Inl: "os_OpenFile p fl pm w = (Inl e, w') \<Longrightarrow> files w' = files w"
  by (auto simp: split_beta os_OpenFile_def split: option.splits fault.splits if_splits)

lemma os_OpenFile_Inr:
  "os_OpenFile p fl pm w = (Inr f, w') \<Longrightarrow>
   f = File p \<and> outcome (pending w) = None \<and>
   files w' p =
     (case files w p of
        None \<Rightarrow> Some \<lparr>data = [], perm = pm\<rparr>
      | Some nd \<Rightarrow> if O_TRUNC \<in> set fl then Some (nd\<lparr>data := []\<rparr>) else Some nd) \<and>
   (files w p = None \<longrightarrow> O_CREATE \<in> set fl)"
  by (auto simp: split_beta os_OpenFile_def split: option.splits fault.splits if_splits)


lemma file_Close_call:
  "file_Close (File p) w = (r, w') \<Longrightarrow> after_call (EvClose p) w w' \<and> files w' = files w"
  by (auto simp: split_beta file_Close_def split: option.splits fault.splits)

lemma snd_file_Close [simp]: "snd (file_Close (File p) w) = snd (sys (EvClose p) w)"
  by (auto simp: split_beta file_Close_def split: option.splits fault.splits)

lemma fst_file_Close:
  "fst (file_Close (File p) w) =
     (case outcome (pending w) of None \<Rightarrow> None | Some (Fault e k) \<Rightarrow> Some (EIO e))"
  by (auto simp: split_beta file_Close_def split: option.splits fault.splits)

lemma os_Remove_call:
  "os_Remove p w = (r, w') \<Longrightarrow>
   after_call (EvRemove p) w w' \<and> (\<forall>q. q \<noteq> p \<longrightarrow> files w' q = files w q)"
  by (auto simp: split_beta os_Remove_def after_call_def sys_def
      split: option.splits fault.splits)

lemma os_Remove_Some: "os_Remove p w = (Some e, w') \<Longrightarrow> files w' = files w"
  by (auto simp: split_beta os_Remove_def split: option.splits fault.splits)

lemma os_Remove_None:
  "os_Remove p w = (None, w') \<Longrightarrow> files w' p = None \<and> files w p \<noteq> None"
  by (auto simp: split_beta os_Remove_def split: option.splits fault.splits)

lemma os_Remove_fault:
  "outcome (pending w) = Some (Fault e k) \<Longrightarrow>
   os_Remove p w = (Some (EIO e), snd (sys (EvRemove p) w))"
  by (simp add: split_beta os_Remove_def )

lemma io_Copy_call:
  "io_Copy (GzWriter (File dst) pl) (File src) w = (r, w') \<Longrightarrow>
   after_call (EvCopy src dst) w w' \<and> (\<forall>q. q \<noteq> dst \<longrightarrow> files w' q = files w q)"
  by (auto simp: split_beta io_Copy_def split: option.splits fault.splits)


lemma io_Copy_None:
  "io_Copy (GzWriter (File dst) pl) (File src) w = ((None, gz'), w') \<Longrightarrow>
   \<exists>nd. files w src = Some nd \<and> gz' = GzWriter (File dst) (pl @ data nd) \<and>
        w' = append_bytes dst (gz_body w (data nd)) (snd (sys (EvCopy src dst) w))"
  by (auto simp: split_beta io_Copy_def sys_def split: option.splits fault.splits)

lemma gz_Close_call:
  "gz_Close (GzWriter (File dst) pl) w = (r, w') \<Longrightarrow>
   after_call (EvGzClose dst) w w' \<and> (\<forall>q. q \<noteq> dst \<longrightarrow> files w' q = files w q)"
  by (auto simp: split_beta gz_Close_def split: option.splits fault.splits)


lemma gz_Close_None:
  "gz_Close (GzWriter (File dst) pl) w = (None, w') \<Longrightarrow>
   w' = append_bytes dst (gz_tail w pl) (snd (sys (EvGzClose dst) w))"
  by (auto simp: split_beta gz_Close_def sys_def split: option.splits fault.splits)

lemma file_Write_call:
  "file_Write (File p) bs w = (r, w') \<Longrightarrow>
   after_call (EvWrite p (length bs)) w w' \<and> (\<forall>q. q \<noteq> p \<longrightarrow> files w' q = files w q)"
  by (auto simp: split_beta file_Write_def split: option.splits fault.splits)

lemma file_Write_None:
  "file_Write (File p) bs w = ((n, None), w') \<Longrightarrow>
   n = int (length bs) \<and> outcome (pending w) = None \<and>
   (\<exists>nd. files w p = Some nd \<and> files w' p = Some (nd\<lparr>data := data nd @ bs\<rparr>))"
  by (auto simp: split_beta file_Write_def files_append_bytes split: option.splits fault.splits)

lemma file_Write_Some:
  "file_Write (File p) bs w = ((n, Some e), w') \<Longrightarrow>
   0 \<le> n \<and> n \<le> int (length bs) \<and>
   files w' p = map_option (\<lambda>nd. nd\<lparr>data := data nd @ take (nat n) bs\<rparr>) (files w p)"
  by (auto simp: split_beta file_Write_def files_append_bytes min_def
      split: option.splits fault.splits)

lemma file_Write_fault:
  "outcome (pending w) = Some (Fault e k) \<Longrightarrow> files w p = Some nd \<Longrightarrow>
   file_Write (File p) bs w =
     ((int (min k (length bs)), Some (EIO e)),
      append_bytes p (take k bs) (snd (sys (EvWrite p (length bs)) w)))"
  by (simp add: split_beta file_Write_def)

lemma file_Write_ok:
  "outcome (pending w) = None \<Longrightarrow> files w p = Some nd \<Longrightarrow>
   file_Write (File p) bs w =
     ((int (length bs), None), append_bytes p bs (snd (sys (EvWrite p (length bs)) w)))"
  by (simp add: split_beta file_Write_def)

subsection \<open>Sealing: \<^verbatim>\<open>composeFile\<close>\<close>

lemma getBackupFileName_now: "now w' = now w \<Longrightarrow> getBackupFileName l w' = getBackupFileName l w"
  by (simp add: getBackupFileName_def)

lemma os_Open_Inr:
  "os_Open p w = (Inr f, w') \<Longrightarrow>
   f = File p \<and> after_call (EvOpenFile p [O_RDONLY]) w w' \<and> files w' = files w \<and>
   files w p \<noteq> None \<and> outcome (pending w) = None"
  unfolding os_Open_def
  by (auto simp: split_beta os_OpenFile_def split: option.splits fault.splits if_splits)

lemma os_Open_Inl:
  "os_Open p w = (Inl e, w') \<Longrightarrow>
   after_call (EvOpenFile p [O_RDONLY]) w w' \<and> files w' = files w"
  unfolding os_Open_def
  by (auto simp: split_beta os_OpenFile_def split: option.splits fault.splits if_splits)

lemma io_Copy_gz:
  "io_Copy (GzWriter (File dst) pl) src w = ((e, gz'), w') \<Longrightarrow> \<exists>pl'. gz' = GzWriter (File dst) pl'"
  by (cases src) (auto simp: split_beta io_Copy_def split: option.splits fault.splits)

lemma composeFile_None:
  assumes "composeFile l w = (None, w')"
  shows "\<exists>fi w1 w2 w3 gz w4 w5 w6.
    os_Open (Filename l) w = (Inr (File (Filename l)), w1) \<and>
    os_Stat (Filename l) w1 = (Inr fi, w2) \<and>
    os_OpenFile (getBackupFileName l w) [O_CREATE, O_TRUNC, O_WRONLY] (fi_mode fi) w2
      = (Inr (File (getBackupFileName l w)), w3) \<and>
    io_Copy (GzWriter (File (getBackupFileName l w)) []) (File (Filename l)) w3 = ((None, gz), w4) \<and>
    gz_Close gz w4 = (None, w5) \<and>
    os_Remove (Filename l) w5 = (None, w6) \<and>
    w' = snd (sys (EvClose (Filename l)) (snd (sys (EvClose (getBackupFileName l w)) w6)))"
proof -
  from assms obtain src w1 where 1: "os_Open (Filename l) w = (Inr src, w1)"
    by (auto simp: composeFile_def split: prod.splits sum.splits)
  then have src: "src = File (Filename l)" and now1: "now w1 = now w"
    by (auto dest: os_Open_Inr simp: after_call_def)
  from assms 1 obtain fi w2 where 2: "os_Stat (Filename l) w1 = (Inr fi, w2)"
    by (auto simp: composeFile_def split: prod.splits sum.splits)
  then have now2: "now w2 = now w" using now1 by (auto dest: os_Stat_call simp: after_call_def)
  then have dst: "getBackupFileName l w2 = getBackupFileName l w"
    by (rule getBackupFileName_now)
  from assms 1 2 obtain gzf w3 where
    3: "os_OpenFile (getBackupFileName l w) [O_CREATE, O_TRUNC, O_WRONLY] (fi_mode fi) w2 = (Inr gzf, w3)"
    by (auto simp: composeFile_def Let_def dst split: prod.splits sum.splits)
  then have gzf: "gzf = File (getBackupFileName l w)" by (auto dest: os_OpenFile_Inr)
  from assms 1 2 3 obtain gz w4 where
    4: "io_Copy (gzip_NewWriter gzf) src w3 = ((None, gz), w4)"
    by (auto simp: composeFile_def Let_def dst split: prod.splits sum.splits option.splits)
  from assms 1 2 3 4 obtain w5 where 5: "gz_Close gz w4 = (None, w5)"
    by (auto simp: composeFile_def Let_def dst split: prod.splits sum.splits option.splits)
  from assms 1 2 3 4 5 obtain w6 where 6: "os_Remove (Filename l) w5 = (None, w6)"
    by (auto simp: composeFile_def Let_def dst split: prod.splits sum.splits option.splits)
  from assms 1 2 3 4 5 6
  have "w' = snd (file_Close src (snd (file_Close gzf w6)))"
    by (simp add: composeFile_def Let_def dst)
  with 1 2 3 4 5 6 show ?thesis
    unfolding src gzf gzip_NewWriter_def by auto
qed


lemma composeFile_trace:
  assumes "composeFile l w = (None, w')"
  shows "trace w' = trace w @
     [EvOpenFile (Filename l) [O_RDONLY], EvStat (Filename l),
      EvOpenFile (getBackupFileName l w) [O_CREATE, O_TRUNC, O_WRONLY],
      EvCopy (Filename l) (getBackupFileName l w), EvGzClose (getBackupFileName l w),
      EvRemove (Filename l), EvClose (getBackupFileName l w), EvClose (Filename l)]"
proof -
  from composeFile_None [OF assms] obtain fi w1 w2 w3 gz w4 w5 w6 where
    1: "os_Open (Filename l) w = (Inr (File (Filename l)), w1)" and
    2: "os_Stat (Filename l) w1 = (Inr fi, w2)" and
    3: "os_OpenFile (getBackupFileName l w) [O_CREATE, O_TRUNC, O_WRONLY] (fi_mode fi) w2
      = (Inr (File (getBackupFileName l w)), w3)" and
    4: "io_Copy (GzWriter (File (getBackupFileName l w)) []) (File (Filename l)) w3 = ((None, gz), w4)" and
    5: "gz_Close gz w4 = (None, w5)" and
    6: "os_Remove (Filename l) w5 = (None, w6)" and
    7: "w' = snd (sys (EvClose (Filename l)) (snd (sys (EvClose (getBackupFileName l w)) w6)))"
    by blast
  from io_Copy_gz [OF 4] obtain pl where gz: "gz = GzWriter (File (getBackupFileName l w)) pl" ..
  have "trace w1 = trace w @ [EvOpenFile (Filename l) [O_RDONLY]]"
    using os_Open_Inr [OF 1] by (simp add: after_call_def)
  moreover have "trace w2 = trace w1 @ [EvStat (Filename l)]"
    using os_Stat_call [OF 2] by (simp add: after_call_def)
  moreover have "trace w3 = trace w2 @ [EvOpenFile (getBackupFileName l w) [O_CREATE, O_TRUNC, O_WRONLY]]"
    using os_OpenFile_call [OF 3] by (simp add: after_call_def)
  moreover have "trace w4 = trace w3 @ [EvCopy (Filename l) (getBackupFileName l w)]"
    using io_Copy_call [OF 4] by (simp add: after_call_def)
  moreover have "trace w5 = trace w4 @ [EvGzClose (getBackupFileName l w)]"
    using gz_Close_call [OF 5 [unfolded gz]] by (simp add: after_call_def)
  moreover have "trace w6 = trace w5 @ [EvRemove (Filename l)]"
    using os_Remove_call [OF 6] by (simp add: after_call_def)
  ultimately show ?thesis unfolding 7 by (simp add: sys_def)
qed

lemma composeFile_files:
  assumes "composeFile l w = (None, w')"
  shows "files w' (Filename l) = None \<and>
    (\<exists>nd a. files w (Filename l) = Some nd \<and> files w' (getBackupFileName l w) = Some a \<and>
       data a = gz_body w (data nd) @ gz_tail w (data nd)) \<and>
    (\<forall>q. q \<noteq> Filename l \<longrightarrow> q \<noteq> getBackupFileName l w \<longrightarrow> files w' q = files w q)"
proof -
  let ?f = "Filename l" and ?dst = "getBackupFileName l w"
  from composeFile_None [OF assms] obtain fi w1 w2 w3 gz w4 w5 w6 where
    1: "os_Open ?f w = (Inr (File ?f), w1)" and
    2: "os_Stat ?f w1 = (Inr fi, w2)" and
    3: "os_OpenFile ?dst [O_CREATE, O_TRUNC, O_WRONLY] (fi_mode fi) w2 = (Inr (File ?dst), w3)" and
    4: "io_Copy (GzWriter (File ?dst) []) (File ?f) w3 = ((None, gz), w4)" and
    5: "gz_Close gz w4 = (None, w5)" and
    6: "os_Remove ?f w5 = (None, w6)" and
    7: "w' = snd (sys (EvClose ?f) (snd (sys (EvClose ?dst) w6)))"
    by blast
  have neq: "?dst \<noteq> ?f" by (rule getBackupFileName_neq)
  have f1: "files w1 = files w" "gz_body w1 = gz_body w" "gz_tail w1 = gz_tail w"
    using os_Open_Inr [OF 1] by (simp_all add: after_call_def)
  have f2: "files w2 = files w" "gz_body w2 = gz_body w" "gz_tail w2 = gz_tail w"
    using os_Stat_call [OF 2] f1 by (simp_all add: after_call_def)
  obtain nd where nd: "files w ?f = Some nd"
    using os_Open_Inr [OF 1] by auto
  have f3: "\<forall>q. q \<noteq> ?dst \<longrightarrow> files w3 q = files w q"
    "\<exists>a. files w3 ?dst = Some a \<and> data a = []" "gz_body w3 = gz_body w" "gz_tail w3 = gz_tail w"
    using os_OpenFile_call [OF 3] os_OpenFile_Inr [OF 3] f2
    by (auto simp: after_call_def split: option.splits)
  from io_Copy_None [OF 4] nd f3(1) neq
  have gz: "gz = GzWriter (File ?dst) (data nd)" and
    w4: "w4 = append_bytes ?dst (gz_body w (data nd)) (snd (sys (EvCopy ?f ?dst) w3))"
    by (auto simp: f3)
  have f4: "\<forall>q. q \<noteq> ?dst \<longrightarrow> files w4 q = files w q"
    "\<exists>a. files w4 ?dst = Some a \<and> data a = gz_body w (data nd)"
    "gz_tail w4 = gz_tail w"
    using f3 unfolding w4 by (auto simp: files_append_bytes append_bytes_def sys_def)
  have w5: "w5 = append_bytes ?dst (gz_tail w (data nd)) (snd (sys (EvGzClose ?dst) w4))"
    using gz_Close_None [OF 5 [unfolded gz]] f4(3) by simp
  have f5: "\<forall>q. q \<noteq> ?dst \<longrightarrow> files w5 q = files w q"
    "\<exists>a. files w5 ?dst = Some a \<and> data a = gz_body w (data nd) @ gz_tail w (data nd)"
    using f4 unfolding w5 by (auto simp: files_append_bytes)
  have f6: "files w6 ?f = None" "\<forall>q. q \<noteq> ?f \<longrightarrow> files w6 q = files w5 q"
    using os_Remove_None [OF 6] os_Remove_call [OF 6] by auto
  show ?thesis
    using nd f5 f6 neq unfolding 7 by auto
qed

lemma ex_getBackupFileName:
  "now w = ex_time \<Longrightarrow>
   getBackupFileName ex_logger w = ''/var/log/2024-03-05-07-08-09-42-app.log.gz''"
  by (simp add: getBackupFileName_eq Format_timeFormat ex_prefix ex_base pad_def dec.simps
      digit_def ext_def ex_time_def)

lemma ex_Filename: "Filename ex_logger = ''/var/log/app.log''"
  by (simp add: ex_logger_def)

lemma ex_composeFile:
  "composeFile ex_logger ex_world_file =
     (None, ex_world\<lparr>files :=
        [''/var/log/2024-03-05-07-08-09-42-app.log.gz''
           \<mapsto> \<lparr>data = ''gz[hello]'', perm = 420\<rparr>],
        trace :=
        [EvOpenFile ''/var/log/app.log'' [O_RDONLY], EvStat ''/var/log/app.log'',
         EvOpenFile ''/var/log/2024-03-05-07-08-09-42-app.log.gz'' [O_CREATE, O_TRUNC, O_WRONLY],
         EvCopy ''/var/log/app.log'' ''/var/log/2024-03-05-07-08-09-42-app.log.gz'',
         EvGzClose ''/var/log/2024-03-05-07-08-09-42-app.log.gz'',
         EvRemove ''/var/log/app.log'',
         EvClose ''/var/log/2024-03-05-07-08-09-42-app.log.gz'',
         EvClose ''/var/log/app.log'']\<rparr>)"
  by (simp add: composeFile_def ex_getBackupFileName ex_Filename Let_def os_Open_def os_OpenFile_def os_Stat_def
      io_Copy_def gz_Close_def os_Remove_def file_Close_def gzip_NewWriter_def append_bytes_def
      sys_def outcome_def ex_world_file_def ex_world_def)

text \<open>
  C5 (as amended). In every successful seal the calls are, in this order: open and stat
  the retiring file, create the archive, stream the compressed copy, flush the
  compressor (its \<^verbatim>\<open>Close\<close>, which writes the trailer), remove the original, and only
  then close the archive file and the retiring file (the two deferred calls). So the
  original is removed after the compressed copy is complete in the archive and before the
  archive file is closed. At the end the path holds no file and the archive holds the
  compressed stream of what the original held.
\<close>

theorem composeFile_order:
  "composeFile l w = (None, w') \<Longrightarrow>
   drop (length (trace w)) (trace w') =
     [EvOpenFile (Filename l) [O_RDONLY], EvStat (Filename l),
      EvOpenFile (getBackupFileName l w) [O_CREATE, O_TRUNC, O_WRONLY],
      EvCopy (Filename l) (getBackupFileName l w), EvGzClose (getBackupFileName l w),
      EvRemove (Filename l), EvClose (getBackupFileName l w), EvClose (Filename l)] \<and>
   occurs_before (EvGzClose (getBackupFileName l w)) (EvRemove (Filename l))
     (drop (length (trace w)) (trace w')) \<and>
   occurs_before (EvRemove (Filename l)) (EvClose (getBackupFileName l w))
     (drop (length (trace w)) (trace w')) \<and>
   files w' (Filename l) = None \<and>
   (\<exists>nd a. files w (Filename l) = Some nd \<and> files w' (getBackupFileName l w) = Some a \<and>
      data a = gz_body w (data nd) @ gz_tail w (data nd))"
  using composeFile_trace [of l w w'] composeFile_files [of l w w']
  by (simp add: occurs_before_def)

text \<open>The theorem at the example logger and a log file holding \<^verbatim>\<open>hello\<close>.\<close>

theorem composeFile_order_witness:
  "composeFile ex_logger ex_world_file
     = (None, snd (composeFile ex_logger ex_world_file)) \<and>
   drop (length (trace ex_world_file)) (trace (snd (composeFile ex_logger ex_world_file))) =
     [EvOpenFile ''/var/log/app.log'' [O_RDONLY], EvStat ''/var/log/app.log'',
      EvOpenFile ''/var/log/2024-03-05-07-08-09-42-app.log.gz'' [O_CREATE, O_TRUNC, O_WRONLY],
      EvCopy ''/var/log/app.log'' ''/var/log/2024-03-05-07-08-09-42-app.log.gz'',
      EvGzClose ''/var/log/2024-03-05-07-08-09-42-app.log.gz'',
      EvRemove ''/var/log/app.log'',
      EvClose ''/var/log/2024-03-05-07-08-09-42-app.log.gz'',
      EvClose ''/var/log/app.log''] \<and>
   files (snd (composeFile ex_logger ex_world_file)) ''/var/log/app.log'' = None"
proof -
  have ok: "composeFile ex_logger ex_world_file = (None, snd (composeFile ex_logger ex_world_file))"
    by (simp add: ex_composeFile)
  have n: "getBackupFileName ex_logger ex_world_file = ''/var/log/2024-03-05-07-08-09-42-app.log.gz''"
    by (simp add: ex_getBackupFileName ex_world_file_def ex_world_def)
  from composeFile_order [OF ok] ok show ?thesis
    by (simp add: n ex_Filename)
qed

text \<open>
  C5 as it is written fails: in this successful seal the archive file is not closed
  before the original is removed; its close comes after the removal.
\<close>

theorem composeFile_close_after_remove:
  "fst (composeFile ex_logger ex_world_file) = None \<and>
   trace (snd (composeFile ex_logger ex_world_file)) =
     [EvOpenFile ''/var/log/app.log'' [O_RDONLY], EvStat ''/var/log/app.log'',
      EvOpenFile ''/var/log/2024-03-05-07-08-09-42-app.log.gz'' [O_CREATE, O_TRUNC, O_WRONLY],
      EvCopy ''/var/log/app.log'' ''/var/log/2024-03-05-07-08-09-42-app.log.gz'',
      EvGzClose ''/var/log/2024-03-05-07-08-09-42-app.log.gz'',
      EvRemove ''/var/log/app.log'',
      EvClose ''/var/log/2024-03-05-07-08-09-42-app.log.gz'',
      EvClose ''/var/log/app.log''] \<and>
   \<not> occurs_before (EvClose ''/var/log/2024-03-05-07-08-09-42-app.log.gz'')
       (EvRemove ''/var/log/app.log'') (trace (snd (composeFile ex_logger ex_world_file))) \<and>
   occurs_before (EvRemove ''/var/log/app.log'')
       (EvClose ''/var/log/2024-03-05-07-08-09-42-app.log.gz'')
       (trace (snd (composeFile ex_logger ex_world_file)))"
  by (simp add: ex_composeFile occurs_before_def)

lemma composeFile_Some_files:
  assumes "composeFile l w = (Some err, w')"
  shows "files w' (Filename l) = files w (Filename l)"
proof -
  let ?f = "Filename l" and ?dst = "getBackupFileName l w"
  have neq: "?f \<noteq> ?dst" using getBackupFileName_neq [of l w] by simp
  obtain r1 w1 where 1: "os_Open ?f w = (r1, w1)" by (cases "os_Open ?f w")
  show ?thesis
  proof (cases r1)
    case (Inl e)
    with 1 assms have "w' = w1" by (simp add: composeFile_def)
    with 1 Inl show ?thesis by (auto dest: os_Open_Inl)
  next
    case (Inr src)
    with 1 have src: "src = File ?f" and f1: "files w1 = files w" and n1: "now w1 = now w"
      by (auto dest: os_Open_Inr simp: after_call_def)
    obtain r2 w2 where 2: "os_Stat ?f w1 = (r2, w2)" by (cases "os_Stat ?f w1")
    then have f2: "files w2 = files w" and n2: "now w2 = now w"
      using f1 n1 by (auto dest: os_Stat_call simp: after_call_def)
    have dst: "getBackupFileName l w2 = ?dst" using n2 by (rule getBackupFileName_now)
    show ?thesis
    proof (cases r2)
      case (Inl e)
      with 1 Inr 2 assms have "w' = snd (file_Close src w2)" by (simp add: composeFile_def)
      with f2 src show ?thesis by simp
    next
      case fi: (Inr fi)
      obtain r3 w3 where
        3: "os_OpenFile ?dst [O_CREATE, O_TRUNC, O_WRONLY] (fi_mode fi) w2 = (r3, w3)"
        by (cases "os_OpenFile ?dst [O_CREATE, O_TRUNC, O_WRONLY] (fi_mode fi) w2")
      then have f3: "files w3 ?f = files w ?f"
        using f2 neq by (auto dest: os_OpenFile_call)
      show ?thesis
      proof (cases r3)
        case (Inl e)
        with 1 Inr 2 fi 3 assms have "w' = snd (file_Close src w3)"
          by (simp add: composeFile_def dst)
        with f3 src show ?thesis by simp
      next
        case gzf: (Inr gzf)
        with 3 have g: "gzf = File ?dst" by (auto dest: os_OpenFile_Inr)
        obtain e4 gz w4 where 4: "io_Copy (GzWriter (File ?dst) []) (File ?f) w3 = ((e4, gz), w4)"
          by (cases "io_Copy (GzWriter (File ?dst) []) (File ?f) w3") auto
        then have f4: "files w4 ?f = files w ?f"
          using f3 neq by (auto dest: io_Copy_call)
        from io_Copy_gz [OF 4] obtain pl where gz: "gz = GzWriter (File ?dst) pl" ..
        show ?thesis
        proof (cases e4)
          case (Some e)
          with 1 Inr 2 fi 3 gzf 4 assms have "w' = snd (file_Close src (snd (file_Close gzf w4)))"
            by (simp add: composeFile_def dst g src gzip_NewWriter_def)
          with f4 src g show ?thesis by simp
        next
          case None
          obtain e5 w5 where 5: "gz_Close gz w4 = (e5, w5)" by (cases "gz_Close gz w4")
          then have f5: "files w5 ?f = files w ?f"
            using f4 neq unfolding gz by (auto dest: gz_Close_call)
          show ?thesis
          proof (cases e5)
            case (Some e)
            with 1 Inr 2 fi 3 gzf 4 None 5 assms
            have "w' = snd (file_Close src (snd (file_Close gzf w5)))"
              by (simp add: composeFile_def dst g src gzip_NewWriter_def)
            with f5 src g show ?thesis by simp
          next
            case n5: None
            obtain e6 w6 where 6: "os_Remove ?f w5 = (e6, w6)" by (cases "os_Remove ?f w5")
            show ?thesis
            proof (cases e6)
              case (Some e)
              with 1 Inr 2 fi 3 gzf 4 None 5 n5 6 assms
              have "w' = snd (file_Close src (snd (file_Close gzf w6)))"
                by (simp add: composeFile_def dst g src gzip_NewWriter_def)
              moreover from 6 Some have "files w6 = files w5" by (auto dest: os_Remove_Some)
              ultimately show ?thesis using f5 src g by simp
            next
              case n6: None
              with 1 Inr 2 fi 3 gzf 4 None 5 n5 6 assms show ?thesis
                by (simp add: composeFile_def dst g src gzip_NewWriter_def)
            qed
          qed
        qed
      qed
    qed
  qed
qed


lemma os_Open_ok:
  "outcome (pending w) = None \<Longrightarrow> files w p = Some nd \<Longrightarrow>
   os_Open p w = (Inr (File p), snd (sys (EvOpenFile p [O_RDONLY]) w))"
  by (simp add: os_Open_def os_OpenFile_def split_beta)



lemma os_OpenFile_create_ok:
  "outcome (pending w) = None \<Longrightarrow> O_CREATE \<in> set fl \<Longrightarrow>
   \<exists>w'. os_OpenFile p fl pm w = (Inr (File p), w')"
  by (simp add: os_OpenFile_def split_beta split: option.splits)

lemma io_Copy_ok:
  "outcome (pending w) = None \<Longrightarrow> files w src = Some nd \<Longrightarrow>
   \<exists>gz w'. io_Copy (GzWriter (File dst) pl) (File src) w = ((None, gz), w')"
  by (simp add: io_Copy_def split_beta)

lemma pending_after: "after_call e w w' \<Longrightarrow> pending w' = tl (pending w)"
  by (simp add: after_call_def)




subsection \<open>Closing, opening and rotating\<close>

lemma later_refl [simp]: "later w w"
  by (auto simp: later_def intro: exI [of _ 0])

lemma later_trans: "later w w' \<Longrightarrow> later w' w'' \<Longrightarrow> later w w''"
  unfolding later_def
proof (intro conjI)
  assume a: "(\<exists>evs. trace w' = trace w @ evs) \<and> (\<exists>n. pending w' = drop n (pending w)) \<and>
      now w' = now w \<and> gz_body w' = gz_body w \<and> gz_tail w' = gz_tail w"
    and b: "(\<exists>evs. trace w'' = trace w' @ evs) \<and> (\<exists>n. pending w'' = drop n (pending w')) \<and>
      now w'' = now w' \<and> gz_body w'' = gz_body w' \<and> gz_tail w'' = gz_tail w'"
  from a b show "\<exists>evs. trace w'' = trace w @ evs" by auto
  from a b obtain n m where "pending w' = drop n (pending w)" "pending w'' = drop m (pending w')"
    by blast
  then have "pending w'' = drop (m + n) (pending w)" by simp
  then show "\<exists>n. pending w'' = drop n (pending w)" ..
  from a b show "now w'' = now w" "gz_body w'' = gz_body w" "gz_tail w'' = gz_tail w" by simp_all
qed

lemma after_call_later: "after_call e w w' \<Longrightarrow> later w w'"
  unfolding after_call_def later_def
  by (auto simp: drop_Suc intro: exI [of _ "Suc 0"])

lemma later_sys [simp]: "later w w' \<Longrightarrow> later w (snd (sys e w'))"
  by (erule later_trans) (rule after_call_later [OF after_call_sys])

lemma later_append_bytes [simp]: "later w (append_bytes p bs w') = later w w'"
  by (simp add: later_def append_bytes_def split: option.splits)

lemma later_os_Stat [simp]: "later w w' \<Longrightarrow> later w (snd (os_Stat p w'))"
  using os_Stat_call [of p w' "fst (os_Stat p w')" "snd (os_Stat p w')"]
  by (auto intro: later_trans after_call_later)

lemma later_os_OpenFile [simp]: "later w w' \<Longrightarrow> later w (snd (os_OpenFile p fl pm w'))"
  using os_OpenFile_call [of p fl pm w' "fst (os_OpenFile p fl pm w')" "snd (os_OpenFile p fl pm w')"]
  by (auto intro: later_trans after_call_later)

lemma later_os_Open [simp]: "later w w' \<Longrightarrow> later w (snd (os_Open p w'))"
  by (simp add: os_Open_def)

lemma later_file_Close [simp]: "later w w' \<Longrightarrow> later w (snd (file_Close f w'))"
  by (cases f) simp

lemma later_os_Remove [simp]: "later w w' \<Longrightarrow> later w (snd (os_Remove p w'))"
  using os_Remove_call [of p w' "fst (os_Remove p w')" "snd (os_Remove p w')"]
  by (auto intro: later_trans after_call_later)

lemma later_io_Copy [simp]: "later w w' \<Longrightarrow> later w (snd (io_Copy gz src w'))"
proof -
  obtain dst pl where gz: "gz = GzWriter (File dst) pl" by (metis GzWriter.exhaust File.exhaust)
  obtain sp where src: "src = File sp" by (cases src)
  assume "later w w'"
  then show ?thesis
    using io_Copy_call [of dst pl sp w' "fst (io_Copy gz src w')" "snd (io_Copy gz src w')"]
    unfolding gz src by (auto intro: later_trans after_call_later)
qed

lemma later_gz_Close [simp]: "later w w' \<Longrightarrow> later w (snd (gz_Close gz w'))"
proof -
  obtain dst pl where gz: "gz = GzWriter (File dst) pl" by (metis GzWriter.exhaust File.exhaust)
  assume "later w w'"
  then show ?thesis
    using gz_Close_call [of dst pl w' "fst (gz_Close gz w')" "snd (gz_Close gz w')"]
    unfolding gz by (auto intro: later_trans after_call_later)
qed

lemma later_file_Write [simp]: "later w w' \<Longrightarrow> later w (snd (file_Write f bs w'))"
proof -
  obtain p where f: "f = File p" by (cases f)
  assume "later w w'"
  then show ?thesis
    using file_Write_call [of p bs w' "fst (file_Write f bs w')" "snd (file_Write f bs w')"]
    unfolding f by (auto intro: later_trans after_call_later)
qed

lemma later_composeFile [simp]: "later w w' \<Longrightarrow> later w (snd (composeFile l w'))"
  by (simp add: composeFile_def split_beta Let_def split: sum.splits option.splits)


lemma files_file_Close [simp]: "files (snd (file_Close f w)) = files w"
  by (cases f) simp

lemma close_l_facts:
  assumes "close_l l w = (r, l', w')"
  shows "l' = l\<lparr>fd := None\<rparr>" "files w' = files w" "later w w'"
    "fd l = Some (File h) \<Longrightarrow> trace w' = trace w @ [EvClose h]"
    "fd l = None \<Longrightarrow> w' = w \<and> r = None"
  using assms
  by (auto simp: close_l_def split_beta sys_def split: option.splits)

lemma close_l_fault:
  "fd l = Some f \<Longrightarrow> outcome (pending w) = Some (Fault e k) \<Longrightarrow>
   fst (close_l l w) = Some (ErrOS (EIO e))"
  by (cases f) (simp add: close_l_def split_beta fst_file_Close)

lemma openNewFile_facts:
  assumes "openNewFile l w = (r, l', w')"
  shows "Filename l' = Filename l" "MaxSize l' = MaxSize l" "later w w'"
    "trace w' = trace w @ [EvOpenFile (Filename l) [O_CREATE, O_WRONLY, O_TRUNC]]"
    "q \<noteq> Filename l \<Longrightarrow> files w' q = files w q"
    "r = None \<Longrightarrow> l' = l\<lparr>fd := Some (File (Filename l)), size_l := 0\<rparr> \<and>
       (\<exists>nd. files w' (Filename l) = Some nd \<and> data nd = []) \<and>
       (files w (Filename l) = None \<longrightarrow> files w' (Filename l) = Some \<lparr>data = [], perm = 493\<rparr>)"
    "r \<noteq> None \<Longrightarrow> l' = l \<and> files w' = files w \<and> r = Some (ErrOpen (Filename l))"
proof -
  obtain r0 w0 where 0: "os_OpenFile (Filename l) [O_CREATE, O_WRONLY, O_TRUNC] 493 w = (r0, w0)"
    by (cases "os_OpenFile (Filename l) [O_CREATE, O_WRONLY, O_TRUNC] 493 w")
  from os_OpenFile_call [OF 0] have c: "after_call (EvOpenFile (Filename l) [O_CREATE, O_WRONLY, O_TRUNC]) w w0"
    and o: "\<forall>q. q \<noteq> Filename l \<longrightarrow> files w0 q = files w q" by auto
  have w': "w' = w0" using assms 0 by (auto simp: openNewFile_def split: sum.splits)
  show "Filename l' = Filename l" "MaxSize l' = MaxSize l"
    using assms 0 by (auto simp: openNewFile_def split: sum.splits)
  show "later w w'" using c w' by (simp add: after_call_later)
  show "trace w' = trace w @ [EvOpenFile (Filename l) [O_CREATE, O_WRONLY, O_TRUNC]]"
    using c w' by (simp add: after_call_def)
  show "q \<noteq> Filename l \<Longrightarrow> files w' q = files w q" using o w' by simp
  show "r = None \<Longrightarrow> l' = l\<lparr>fd := Some (File (Filename l)), size_l := 0\<rparr> \<and>
       (\<exists>nd. files w' (Filename l) = Some nd \<and> data nd = []) \<and>
       (files w (Filename l) = None \<longrightarrow> files w' (Filename l) = Some \<lparr>data = [], perm = 493\<rparr>)"
    using assms 0 w' by (cases r0) (auto simp: openNewFile_def dest!: os_OpenFile_Inr split: option.splits)
  show "r \<noteq> None \<Longrightarrow> l' = l \<and> files w' = files w \<and> r = Some (ErrOpen (Filename l))"
    using assms 0 w' by (cases r0) (auto simp: openNewFile_def dest!: os_OpenFile_Inl)
qed

lemma openNewFile_ok:
  "outcome (pending w) = None \<Longrightarrow> fst (openNewFile l w) = None"
  using os_OpenFile_create_ok [of w "[O_CREATE, O_WRONLY, O_TRUNC]" "Filename l" 493]
  by (auto simp: openNewFile_def)

lemma composeFile_facts:
  assumes "composeFile l w = (r, w')"
  shows "later w w'"
    "r = None \<Longrightarrow> files w' (Filename l) = None"
    "r \<noteq> None \<Longrightarrow> files w' (Filename l) = files w (Filename l)"
proof -
  show "later w w'" using later_composeFile [of w w l] assms by simp
  show "r = None \<Longrightarrow> files w' (Filename l) = None"
    using composeFile_files [of l w w'] assms by simp
  show "r \<noteq> None \<Longrightarrow> files w' (Filename l) = files w (Filename l)"
    using composeFile_Some_files [of l w _ w'] assms by auto
qed

lemma makeNewFile_facts:
  assumes "makeNewFile l w = (r, l', w')"
  shows "Filename l' = Filename l" "MaxSize l' = MaxSize l" "later w w'"
    "fd l = Some (File h) \<Longrightarrow> \<exists>evs. trace w' = trace w @ EvClose h # evs"
    "r = None \<Longrightarrow> l' = l\<lparr>fd := Some (File (Filename l)), size_l := 0\<rparr> \<and>
       files w' (Filename l) = Some \<lparr>data = [], perm = 493\<rparr>"
    "r \<noteq> None \<Longrightarrow> l' = l\<lparr>fd := None\<rparr> \<and>
       (files w' (Filename l) = files w (Filename l) \<or> files w' (Filename l) = None)"
proof -
  obtain r1 l1 w1 where 1: "close_l l w = (r1, l1, w1)" by (cases "close_l l w")
  note cl = close_l_facts [OF 1]
  obtain r2 w2 where 2: "composeFile l1 w1 = (r2, w2)" by (cases "composeFile l1 w1")
  note sl = composeFile_facts [OF 2]
  obtain r3 l3 w3 where 3: "openNewFile l1 w2 = (r3, l3, w3)" by (cases "openNewFile l1 w2")
  note nw = openNewFile_facts [OF 3]
  have f1: "Filename l1 = Filename l" using cl(1) by simp
  consider (a) "r1 \<noteq> None" "r = r1" "l' = l1" "w' = w1"
    | (b) "r1 = None" "r2 \<noteq> None" "r = r2" "l' = l1" "w' = w2"
    | (c) "r1 = None" "r2 = None" "r = r3" "l' = l3" "w' = w3"
    using assms 1 2 3 by (auto simp: makeNewFile_def split: option.splits)
  note cases = this
  show "Filename l' = Filename l" "MaxSize l' = MaxSize l"
    using cases cl(1) nw(1,2) by (cases; simp)+
  show "later w w'"
    using cases cl(3) sl(1) nw(3) by cases (auto intro: later_trans)
  show "\<exists>evs. trace w' = trace w @ EvClose h # evs" if "fd l = Some (File h)"
  proof -
    from cl(4) [OF that] have t1: "trace w1 = trace w @ [EvClose h]" .
    from sl(1) obtain e2 where t2: "trace w2 = trace w1 @ e2" by (auto simp: later_def)
    from nw(3) obtain e3 where t3: "trace w3 = trace w2 @ e3" by (auto simp: later_def)
    from cases show ?thesis by cases (simp_all add: t1 t2 t3)
  qed
  show "l' = l\<lparr>fd := Some (File (Filename l)), size_l := 0\<rparr> \<and>
       files w' (Filename l) = Some \<lparr>data = [], perm = 493\<rparr>" if "r = None"
    using cases
  proof cases
    case a
    with that show ?thesis by simp
  next
    case b
    with that show ?thesis by simp
  next
    case c
    with that have "r3 = None" by simp
    moreover from sl(2) c(2) f1 have "files w2 (Filename l1) = None" by simp
    ultimately show ?thesis using nw(6) c cl(1) f1 by auto
  qed
  show "l' = l\<lparr>fd := None\<rparr> \<and>
       (files w' (Filename l) = files w (Filename l) \<or> files w' (Filename l) = None)"
    if "r \<noteq> None"
    using cases
  proof cases
    case a
    then show ?thesis using cl(1,2) by simp
  next
    case b
    then show ?thesis using cl(1,2) sl(3) f1 by simp
  next
    case c
    with that have "r3 \<noteq> None" by simp
    from nw(7) [OF this] have "l3 = l1" "files w3 = files w2" by simp_all
    moreover from sl(2) c(2) f1 have "files w2 (Filename l) = None" by simp
    ultimately show ?thesis using c cl(1) by simp
  qed
qed

subsection \<open>\<^verbatim>\<open>openFile\<close> and the two parts of \<^verbatim>\<open>Write\<close>\<close>

lemma max_l_in_int64: "in_int64 (max_l l)"
  by (simp add: max_l_def go_mul_def wrap64_range) (simp add: in_int64_def defaultMaxSize_def megabyte_def)

lemma go_add_0_len: "0 \<le> n \<Longrightarrow> n \<le> max_l l \<Longrightarrow> go_add 0 n = n"
  using max_l_in_int64 [of l] by (intro go_add_0) (simp add: in_int64_def)

lemma max_l_cong: "MaxSize l' = MaxSize l \<Longrightarrow> max_l l' = max_l l"
  by (simp add: max_l_def)

lemma openFile_facts:
  assumes "openFile l w n = (r, l', w')"
  shows "Filename l' = Filename l" "MaxSize l' = MaxSize l" "later w w'"
    "r = None \<Longrightarrow> fd l' = Some (File (Filename l)) \<and>
       (\<exists>nd. files w' (Filename l) = Some nd \<and> size_l l' = int (length (data nd)))"
    "r \<noteq> None \<Longrightarrow> (l' = l \<or> l' = l\<lparr>fd := None\<rparr>) \<and>
       (files w' (Filename l) = files w (Filename l) \<or> files w' (Filename l) = None)"
    "r = None \<Longrightarrow> files w' (Filename l) = files w (Filename l) \<or>
       (\<exists>nd. files w' (Filename l) = Some nd \<and> data nd = [])"
proof -
  let ?f = "Filename l"
  obtain r1 w1 where 1: "os_Stat ?f w = (r1, w1)" by (cases "os_Stat ?f w")
  from os_Stat_call [OF 1] have l1: "later w w1" and f1: "files w1 = files w"
    by (auto intro: after_call_later)
  obtain r2 l2 w2 where 2: "openNewFile l w1 = (r2, l2, w2)" by (cases "openNewFile l w1")
  note nw = openNewFile_facts [OF 2]
  obtain r3 l3 w3 where 3: "makeNewFile l w1 = (r3, l3, w3)" by (cases "makeNewFile l w1")
  note mk = makeNewFile_facts [OF 3]
  obtain r4 w4 where 4: "os_OpenFile ?f [O_WRONLY, O_APPEND] 493 w1 = (r4, w4)"
    by (cases "os_OpenFile ?f [O_WRONLY, O_APPEND] 493 w1")
  from os_OpenFile_call [OF 4] have l4: "later w1 w4" by (auto intro: after_call_later)
  have eq: "openFile l w n =
      (if r1 = Inl ENOENT then (r2, l2, w2)
       else case r1 of
         Inl err \<Rightarrow> (Some (ErrStat ?f), l, w1)
       | Inr fi \<Rightarrow>
           if go_add (fi_size fi) n \<ge> max_l l then (r3, l3, w3)
           else (case r4 of
                   Inl err \<Rightarrow> (Some (ErrOpen ?f), l, w4)
                 | Inr file \<Rightarrow> (None, l\<lparr>fd := Some file, size_l := fi_size fi\<rparr>, w4)))"
    unfolding openFile_def 1 by (simp add: 2 3 4 split: sum.splits os_error.splits)
  have "(r1 = Inl ENOENT \<and> r = r2 \<and> l' = l2 \<and> w' = w2) \<or>
    (r \<noteq> None \<and> l' = l \<and> w' = w1) \<or>
    (\<exists>fi. r1 = Inr fi \<and> r = r3 \<and> l' = l3 \<and> w' = w3) \<or>
    (\<exists>fi e. r1 = Inr fi \<and> r4 = Inl e \<and> r \<noteq> None \<and> l' = l \<and> w' = w4) \<or>
    (\<exists>fi. r1 = Inr fi \<and> r4 = Inr (File ?f) \<and> r = None \<and>
        l' = l\<lparr>fd := Some (File ?f), size_l := fi_size fi\<rparr> \<and> w' = w4)"
  proof (cases "r1 = Inl ENOENT")
    case True
    with assms eq show ?thesis by auto
  next
    case ne: False
    show ?thesis
    proof (cases r1)
      case (Inl e)
      with ne assms eq show ?thesis by auto
    next
      case (Inr fi)
      show ?thesis
      proof (cases "go_add (fi_size fi) n \<ge> max_l l")
        case True
        with Inr assms eq show ?thesis by auto
      next
        case big: False
        show ?thesis
        proof (cases r4)
          case (Inl e)
          with big Inr assms eq show ?thesis by auto
        next
          case r4: (Inr h)
          with 4 have "h = File ?f" by (auto dest: os_OpenFile_Inr)
          with r4 big Inr assms eq show ?thesis by auto
        qed
      qed
    qed
  qed
  then consider (new) "r1 = Inl ENOENT" "r = r2" "l' = l2" "w' = w2"
    | (err) "r \<noteq> None" "l' = l" "w' = w1"
    | (rot) fi where "r1 = Inr fi" "r = r3" "l' = l3" "w' = w3"
    | (fail) fi e where "r1 = Inr fi" "r4 = Inl e" "r \<noteq> None" "l' = l" "w' = w4"
    | (app) fi where "r1 = Inr fi" "r4 = Inr (File ?f)" "r = None"
        "l' = l\<lparr>fd := Some (File ?f), size_l := fi_size fi\<rparr>" "w' = w4"
    by blast
  note cases = this
  show "Filename l' = Filename l"
    using cases nw(1) mk(1) by cases simp_all
  show "MaxSize l' = MaxSize l"
    using cases nw(2) mk(2) by cases simp_all
  show "later w w'"
    using cases l1 l4 nw(3) mk(3) by cases (auto intro: later_trans)
  show "fd l' = Some (File ?f) \<and>
       (\<exists>nd. files w' ?f = Some nd \<and> size_l l' = int (length (data nd)))" if "r = None"
    using cases
  proof cases
    case new
    with that nw(6) show ?thesis by auto
  next
    case err
    with that show ?thesis by simp
  next
    case rot
    with that mk(5) show ?thesis by auto
  next
    case fail
    with that show ?thesis by simp
  next
    case app
    from os_Stat_Inr [OF 1 [unfolded app(1)]] obtain nd where
      "files w ?f = Some nd" "fi = \<lparr>fi_size = int (length (data nd)), fi_mode = perm nd\<rparr>"
      by auto
    moreover from os_OpenFile_Inr [OF 4 [unfolded app(2)]] f1
    have "files w4 ?f = files w ?f" by (auto split: option.splits)
    ultimately show ?thesis using app by simp
  qed
  show "(l' = l \<or> l' = l\<lparr>fd := None\<rparr>) \<and>
       (files w' ?f = files w ?f \<or> files w' ?f = None)" if "r \<noteq> None"
    using cases
  proof cases
    case new
    with that nw(7) f1 show ?thesis by auto
  next
    case err
    with f1 show ?thesis by simp
  next
    case rot
    with that mk(6) f1 show ?thesis by auto
  next
    case fail
    from os_OpenFile_Inl [OF 4 [unfolded fail(2)]] f1 fail show ?thesis by simp
  next
    case app
    with that show ?thesis by simp
  qed
  show "files w' ?f = files w ?f \<or> (\<exists>nd. files w' ?f = Some nd \<and> data nd = [])"
    if "r = None"
    using cases
  proof cases
    case new
    with that nw(6) show ?thesis by auto
  next
    case err
    with that show ?thesis by simp
  next
    case rot
    with that mk(5) show ?thesis by auto
  next
    case fail
    with that show ?thesis by simp
  next
    case app
    from os_OpenFile_Inr [OF 4 [unfolded app(2)]] f1
    have "files w4 ?f = files w ?f" by (auto split: option.splits)
    with app show ?thesis by simp
  qed
qed

lemma Write_unfold:
  "Write l w p =
     (if int (length p) > max_l l then ((0, Some (ErrTooLarge (int (length p)))), l, w)
      else
        (case Write_prepare l w (int (length p)) of
           (Some err, l2, w2) \<Rightarrow> ((0, Some err), l2, w2)
         | (None, l2, w2) \<Rightarrow>
             (case fd l2 of
                None \<Rightarrow> ((0, Some (ErrOS EINVAL)), l2, w2)
              | Some f \<Rightarrow>
                  (case file_Write f p w2 of
                     ((n, Some err), w3) \<Rightarrow> ((0, Some (ErrOS err)), l2, w3)
                   | ((n, None), w3) \<Rightarrow>
                       ((n, None), l2\<lparr>size_l := go_add (size_l l2) n\<rparr>, w3)))))"
  by (simp add: Write_def Write_prepare_def Let_def split: prod.splits option.splits)


subsection \<open>\<^verbatim>\<open>Write\<close>\<close>

lemma Write_prepare_open:
  "fd l \<noteq> None \<Longrightarrow>
   Write_prepare l w n = (if go_add (size_l l) n > max_l l then makeNewFile l w else (None, l, w))"
  by (auto simp: Write_prepare_def)

lemma Write_success_prepare:
  assumes "Write l w p = ((n, None), l', w')"
  shows "n = int (length p) \<and> int (length p) \<le> max_l l \<and>
    (\<exists>l2 w2 f nd. Write_prepare l w (int (length p)) = (None, l2, w2) \<and>
       fd l2 = Some (File f) \<and>
       l' = l2\<lparr>size_l := go_add (size_l l2) (int (length p))\<rparr> \<and>
       outcome (pending w2) = None \<and> after_call (EvWrite f (length p)) w2 w' \<and>
       files w2 f = Some nd \<and> files w' f = Some (nd\<lparr>data := data nd @ p\<rparr>) \<and>
       (\<forall>q. q \<noteq> f \<longrightarrow> files w' q = files w2 q))"
proof -
  from assms have le: "int (length p) \<le> max_l l"
    by (auto simp: Write_unfold split: if_splits)
  obtain r2 l2 w2 where 2: "Write_prepare l w (int (length p)) = (r2, l2, w2)"
    by (cases "Write_prepare l w (int (length p))")
  with assms le have r2: "r2 = None"
    by (auto simp: Write_unfold split: option.splits)
  with assms le 2 obtain f where f: "fd l2 = Some (File f)"
    by (cases "fd l2") (auto simp: Write_unfold intro: File.exhaust)
  obtain k e3 w3 where 3: "file_Write (File f) p w2 = ((k, e3), w3)"
    by (cases "file_Write (File f) p w2") auto
  with assms le 2 r2 f have e3: "e3 = None" "n = k" "w' = w3"
    "l' = l2\<lparr>size_l := go_add (size_l l2) k\<rparr>"
    by (auto simp: Write_unfold split: option.splits)
  from file_Write_None [OF 3 [unfolded e3(1)]] file_Write_call [OF 3]
  show ?thesis using le 2 r2 f e3 by auto
qed


text \<open>
  C2. A buffer longer than the maximum is rejected before anything else is done:
  \<^verbatim>\<open>Write\<close> returns the count 0 and the error of the length check, the logger (its
  handle and its size among the rest) is unchanged, and so is the world: no system call is
  made, no file is created.
\<close>

theorem Write_oversize:
  "int (length p) > max_l l \<Longrightarrow>
   Write l w p = ((0, Some (ErrTooLarge (int (length p)))), l, w)"
  by (simp add: Write_def)

lemma ex_max: "max_l ex_logger = 1048576"
  by (simp add: max_l_def ex_logger_def go_mul_def wrap64_def megabyte_def)

text \<open>The theorem at the example logger (maximum 1048576) and a buffer of 1048577 bytes.\<close>

theorem Write_oversize_witness:
  "Write ex_logger ex_world (replicate 1048577 (CHR ''x''))
     = ((0, Some (ErrTooLarge 1048577)), ex_logger, ex_world)"
  using Write_oversize [of ex_logger "replicate 1048577 (CHR ''x'')" ex_world]
  by (simp add: ex_max)

lemma Write_rotation_resets:
  assumes fd: "fd l = Some (File h)"
    and big: "max_l l < go_add (size_l l) (int (length p))"
    and W: "Write l w p = ((n, None), l', w')"
  shows "size_l l' = int (length p)"
    "files w' (Filename l) = Some \<lparr>data = p, perm = 493\<rparr>"
proof -
  from Write_success_prepare [OF W] obtain l2 w2 f nd where
    le: "int (length p) \<le> max_l l"
    and 2: "Write_prepare l w (int (length p)) = (None, l2, w2)"
    and h2: "fd l2 = Some (File f)"
    and l': "l' = l2\<lparr>size_l := go_add (size_l l2) (int (length p))\<rparr>"
    and nd: "files w2 f = Some nd" "files w' f = Some (nd\<lparr>data := data nd @ p\<rparr>)"
    by blast
  from 2 fd big have mk: "makeNewFile l w = (None, l2, w2)"
    by (simp add: Write_prepare_def)
  from makeNewFile_facts(5) [OF mk]
  have l2: "l2 = l\<lparr>fd := Some (File (Filename l)), size_l := 0\<rparr>"
    and e: "files w2 (Filename l) = Some \<lparr>data = [], perm = 493\<rparr>" by simp_all
  from h2 l2 have f: "f = Filename l" by simp
  show "size_l l' = int (length p)"
    using le by (simp add: l' l2 go_add_0_len [of _ l])
  show "files w' (Filename l) = Some \<lparr>data = p, perm = 493\<rparr>"
    using nd e by (auto simp: f)
qed

lemma Write_prepare_closed:
  assumes fd: "fd l = None" and 2: "Write_prepare l w n = (None, l2, w2)"
  shows "fd l2 = Some (File (Filename l)) \<and>
    (\<exists>nd. files w2 (Filename l) = Some nd \<and> size_l l2 = int (length (data nd)) \<and>
       (files w (Filename l) = Some nd \<or> data nd = []))"
proof -
  let ?f = "Filename l"
  obtain r1 l1 w1 where 1: "openFile l w n = (r1, l1, w1)" by (cases "openFile l w n")
  have r1: "r1 = None" using 1 2 fd by (cases r1) (simp_all add: Write_prepare_def)
  note o = openFile_facts(1) [OF 1] openFile_facts(4,6) [OF 1 r1]
  show ?thesis
  proof (cases "go_add (size_l l1) n > max_l l1")
    case True
    with 1 2 fd r1 have mk: "makeNewFile l1 w1 = (None, l2, w2)"
      by (simp add: Write_prepare_def)
    from makeNewFile_facts(5) [OF mk] o(1) show ?thesis by simp
  next
    case False
    with 1 2 fd r1 have "l2 = l1" "w2 = w1" by (simp_all add: Write_prepare_def)
    with o show ?thesis by auto
  qed
qed

text \<open>
  C10 (as amended). When \<^verbatim>\<open>Write\<close> returns no error, the count is the length of
  the buffer, the whole buffer is at the end of the file of the handle, and the size of
  the logger is the length of the buffer more than the size at the append, which is not
  always the size before the call. With a file open and no rotation due, it is the size
  before the call. With a file open and a rotation due, it is 0: the size afterwards is
  the length of the buffer, and the new file holds the buffer alone. With no file open,
  it is the size of the file that the call opened: the file found on disk, or an empty
  one; the size afterwards is the size of the file on disk. The sum is the sum of
  \<^verbatim>\<open>int\<close>, which is the sum itself when that fits 64 bits.
\<close>

theorem Write_success:
  "Write l w p = ((n, None), l', w') \<Longrightarrow>
   n = int (length p) \<and>
   (\<exists>l2 w2 f nd.
      Write_prepare l w (int (length p)) = (None, l2, w2) \<and>
      l' = l2\<lparr>size_l := go_add (size_l l2) (int (length p))\<rparr> \<and>
      (in_int64 (size_l l2 + int (length p)) \<longrightarrow> size_l l' = size_l l2 + int (length p)) \<and>
      fd l2 = Some (File f) \<and> files w2 f = Some nd \<and>
      files w' f = Some (nd\<lparr>data := data nd @ p\<rparr>)) \<and>
   (fd l \<noteq> None \<longrightarrow> \<not> max_l l < go_add (size_l l) (int (length p)) \<longrightarrow>
      size_l l' = go_add (size_l l) (int (length p))) \<and>
   (fd l \<noteq> None \<longrightarrow> max_l l < go_add (size_l l) (int (length p)) \<longrightarrow>
      size_l l' = int (length p) \<and>
      files w' (Filename l) = Some \<lparr>data = p, perm = 493\<rparr>) \<and>
   (fd l = None \<longrightarrow>
      (\<exists>nd. (files w (Filename l) = Some nd \<or> data nd = []) \<and>
         size_l l' = go_add (int (length (data nd))) (int (length p)) \<and>
         files w' (Filename l) = Some (nd\<lparr>data := data nd @ p\<rparr>))) \<and>
   (\<forall>a. in_int64 (a + int (length p)) \<longrightarrow> go_add a (int (length p)) = a + int (length p))"
proof -
  assume a: "Write l w p = ((n, None), l', w')"
  from Write_success_prepare [OF a] obtain l2 w2 f nd where
    n: "n = int (length p)" and
    2: "Write_prepare l w (int (length p)) = (None, l2, w2)" and
    f: "fd l2 = Some (File f)" and
    l': "l' = l2\<lparr>size_l := go_add (size_l l2) (int (length p))\<rparr>" and
    nd: "files w2 f = Some nd" "files w' f = Some (nd\<lparr>data := data nd @ p\<rparr>)"
    by blast
  have A: "size_l l' = go_add (size_l l) (int (length p))"
    if "fd l \<noteq> None" "\<not> max_l l < go_add (size_l l) (int (length p))"
    using 2 l' that by (simp add: Write_prepare_open)
  have B: "size_l l' = int (length p) \<and> files w' (Filename l) = Some \<lparr>data = p, perm = 493\<rparr>"
    if "fd l \<noteq> None" "max_l l < go_add (size_l l) (int (length p))"
  proof -
    from that(1) obtain h where "fd l = Some (File h)" by (cases "fd l"; cases "the (fd l)") auto
    from Write_rotation_resets [OF this that(2) a] show ?thesis by simp
  qed
  have C: "\<exists>nd. (files w (Filename l) = Some nd \<or> data nd = []) \<and>
         size_l l' = go_add (int (length (data nd))) (int (length p)) \<and>
         files w' (Filename l) = Some (nd\<lparr>data := data nd @ p\<rparr>)"
    if "fd l = None"
  proof -
    from Write_prepare_closed [OF that 2] f nd(1) obtain nd' where
      "f = Filename l" "files w2 (Filename l) = Some nd'" "size_l l2 = int (length (data nd'))"
      "files w (Filename l) = Some nd' \<or> data nd' = []" by auto
    with nd l' show ?thesis by auto
  qed
  have D: "\<exists>l2 w2 f nd.
      Write_prepare l w (int (length p)) = (None, l2, w2) \<and>
      l' = l2\<lparr>size_l := go_add (size_l l2) (int (length p))\<rparr> \<and>
      (in_int64 (size_l l2 + int (length p)) \<longrightarrow> size_l l' = size_l l2 + int (length p)) \<and>
      fd l2 = Some (File f) \<and> files w2 f = Some nd \<and>
      files w' f = Some (nd\<lparr>data := data nd @ p\<rparr>)"
    using 2 f l' nd by (auto simp: go_add_exact)
  from n A B C D show ?thesis by (simp add: go_add_exact)
qed


text \<open>
  C8. Every \<^verbatim>\<open>Write\<close> that returns an error returns the count 0. When the append to the
  handle fails, having put \<open>k\<close> bytes of the buffer on disk, \<^verbatim>\<open>Write\<close> returns 0 with
  the error of the append, and the logger is as it was before the append, its size not
  updated; the count 0 is at most \<open>k\<close>. In particular with a file open and no rotation
  due, the logger after the call is the logger before it.
\<close>

lemma Write_error_count: "snd (fst (Write l w p)) \<noteq> None \<Longrightarrow> fst (fst (Write l w p)) = 0"
  by (auto simp: Write_unfold split: prod.splits option.splits if_splits)

theorem Write_append_error:
  "(snd (fst (Write l w p)) \<noteq> None \<longrightarrow> fst (fst (Write l w p)) = 0) \<and>
   (int (length p) \<le> max_l l \<longrightarrow> Write_prepare l w (int (length p)) = (None, l2, w2) \<longrightarrow>
    fd l2 = Some (File f) \<longrightarrow> file_Write (File f) p w2 = ((k, Some e), w3) \<longrightarrow>
      Write l w p = ((0, Some (ErrOS e)), l2, w3) \<and> 0 \<le> k \<and> k \<le> int (length p) \<and>
      files w3 f = map_option (\<lambda>nd. nd\<lparr>data := data nd @ take (nat k) p\<rparr>) (files w2 f)) \<and>
   (int (length p) \<le> max_l l \<longrightarrow> fd l = Some (File f) \<longrightarrow>
    \<not> max_l l < go_add (size_l l) (int (length p)) \<longrightarrow> files w f = Some nd \<longrightarrow>
    outcome (pending w) = Some (Fault c j) \<longrightarrow>
      (\<exists>w'. Write l w p = ((0, Some (ErrOS (EIO c))), l, w') \<and>
         files w' f = Some (nd\<lparr>data := data nd @ take j p\<rparr>)))"
proof (intro conjI impI)
  show "snd (fst (Write l w p)) \<noteq> None \<Longrightarrow> fst (fst (Write l w p)) = 0"
    by (rule Write_error_count)
next
  assume a: "int (length p) \<le> max_l l" "Write_prepare l w (int (length p)) = (None, l2, w2)"
    "fd l2 = Some (File f)" "file_Write (File f) p w2 = ((k, Some e), w3)"
  then show "Write l w p = ((0, Some (ErrOS e)), l2, w3)" by (simp add: Write_unfold)
  from file_Write_Some [OF a(4)]
  show "0 \<le> k" "k \<le> int (length p)"
    "files w3 f = map_option (\<lambda>nd. nd\<lparr>data := data nd @ take (nat k) p\<rparr>) (files w2 f)"
    by simp_all
next
  assume a: "int (length p) \<le> max_l l" "fd l = Some (File f)"
    "\<not> max_l l < go_add (size_l l) (int (length p))" "files w f = Some nd"
    "outcome (pending w) = Some (Fault c j)"
  let ?w' = "append_bytes f (take j p) (snd (sys (EvWrite f (length p)) w))"
  from a have "Write l w p = ((0, Some (ErrOS (EIO c))), l, ?w')"
    by (simp add: Write_unfold Write_prepare_open file_Write_fault)
  moreover from a(4) have "files ?w' f = Some (nd\<lparr>data := data nd @ take j p\<rparr>)"
    by (simp add: files_append_bytes)
  ultimately show "\<exists>w'. Write l w p = ((0, Some (ErrOS (EIO c))), l, w') \<and>
         files w' f = Some (nd\<lparr>data := data nd @ take j p\<rparr>)" by blast
qed


lemma max_l_update [simp]:
  "max_l (l\<lparr>fd := x\<rparr>) = max_l l" "max_l (l\<lparr>size_l := y\<rparr>) = max_l l"
  by (simp_all add: max_l_def)

lemmas run_eval = Write_def openFile_def openNewFile_def makeNewFile_def close_l_def
  os_Stat_def os_OpenFile_def file_Write_def file_Close_def append_bytes_def sys_def outcome_def
  go_add_def wrap64_def Let_def ex_max ex_Filename

lemma ex_logger_fields:
  "fd ex_logger = None" "size_l ex_logger = 0"
  "fd ex_logger5 = Some (File ''/var/log/app.log'')" "size_l ex_logger5 = 5"
  "max_l ex_logger5 = 1048576" "Filename ex_logger5 = ''/var/log/app.log''"
  "fd ex_logger_half = Some (File ''/var/log/app.log'')" "size_l ex_logger_half = 524288"
  "max_l ex_logger_half = 1048576" "Filename ex_logger_half = ''/var/log/app.log''"
  "fd ex_logger_full = Some (File ''/var/log/app.log'')" "size_l ex_logger_full = 1048576"
  "max_l ex_logger_full = 1048576" "Filename ex_logger_full = ''/var/log/app.log''"
  using ex_max ex_Filename
  by (simp_all add: ex_logger5_def ex_logger_half_def ex_logger_full_def ex_logger_def max_l_def)

lemma ex_Write1: "Write ex_logger ex_world ''hello'' = ((5, None), ex_logger5, ex_world5)"
  by (simp add: run_eval ex_logger_fields ex_logger5_def ex_world5_def ex_world_def)

lemma ex_Write2:
  "Write ex_logger5 ex_world5 '' world'' =
     ((6, None), ex_logger5\<lparr>size_l := 11\<rparr>,
      ex_world5\<lparr>files := [''/var/log/app.log'' \<mapsto> \<lparr>data = ''hello world'', perm = 493\<rparr>],
        trace := trace ex_world5 @ [EvWrite ''/var/log/app.log'' 6]\<rparr>)"
  by (simp add: run_eval ex_logger_fields ex_world5_def ex_world_def)

lemma ex_Write2_fault:
  "Write ex_logger5 (ex_world5\<lparr>pending := [Some (Fault 28 3)]\<rparr>) '' world'' =
     ((0, Some (ErrOS (EIO 28))), ex_logger5,
      ex_world5\<lparr>files := [''/var/log/app.log'' \<mapsto> \<lparr>data = ''hello wo'', perm = 493\<rparr>],
        trace := trace ex_world5 @ [EvWrite ''/var/log/app.log'' 6]\<rparr>)"
  by (simp add: run_eval ex_logger_fields ex_world5_def ex_world_def)


text \<open>
  The theorem at the example logger with \<^verbatim>\<open>hello\<close> written: the append of six more
  bytes fails after three (error 28); the count is 0, the logger is unchanged, and the
  file has grown by the three bytes.
\<close>

theorem Write_append_error_witness:
  "Write ex_logger5 (ex_world5\<lparr>pending := [Some (Fault 28 3)]\<rparr>) '' world''
     = ((0, Some (ErrOS (EIO 28))), ex_logger5,
        snd (snd (Write ex_logger5 (ex_world5\<lparr>pending := [Some (Fault 28 3)]\<rparr>) '' world''))) \<and>
   files (snd (snd (Write ex_logger5 (ex_world5\<lparr>pending := [Some (Fault 28 3)]\<rparr>) '' world'')))
     ''/var/log/app.log'' = Some \<lparr>data = ''hello wo'', perm = 493\<rparr>"
proof -
  let ?w = "ex_world5\<lparr>pending := [Some (Fault 28 3)]\<rparr>"
  let ?nd = "\<lparr>data = ''hello'', perm = 493\<rparr>"
  have h: "int (length '' world'') \<le> max_l ex_logger5"
    "fd ex_logger5 = Some (File ''/var/log/app.log'')"
    "\<not> max_l ex_logger5 < go_add (size_l ex_logger5) (int (length '' world''))"
    "files ?w ''/var/log/app.log'' = Some ?nd"
    "outcome (pending ?w) = Some (Fault 28 3)"
    by (simp_all add: ex_logger_fields go_add_def wrap64_def ex_world5_def outcome_def)
  from Write_append_error [THEN conjunct2, THEN conjunct2, rule_format, OF h]
  show ?thesis by auto
qed

lemma makeNewFile_archive:
  assumes "makeNewFile l w = (None, l', w')"
  shows "\<exists>nd a. files w (Filename l) = Some nd \<and> files w' (getBackupFileName l w) = Some a \<and>
    data a = gz_body w (data nd) @ gz_tail w (data nd)"
proof -
  obtain r1 l1 w1 where 1: "close_l l w = (r1, l1, w1)" by (cases "close_l l w")
  note cl = close_l_facts [OF 1]
  obtain r2 w2 where 2: "composeFile l1 w1 = (r2, w2)" by (cases "composeFile l1 w1")
  from assms 1 2 have r: "r1 = None" "r2 = None" and 3: "openNewFile l1 w2 = (None, l', w')"
    by (auto simp: makeNewFile_def split: option.splits)
  have same: "Filename l1 = Filename l" "getBackupFileName l1 w1 = getBackupFileName l w"
    "gz_body w1 = gz_body w" "gz_tail w1 = gz_tail w"
    using cl(1,3) by (simp_all add: later_def getBackupFileName_def)
  from composeFile_files [OF 2 [unfolded r(2)]] same cl(2)
  obtain nd a where "files w (Filename l) = Some nd" "files w2 (getBackupFileName l w) = Some a"
    "data a = gz_body w (data nd) @ gz_tail w (data nd)" by auto
  moreover have "files w' (getBackupFileName l w) = files w2 (getBackupFileName l w)"
    using openNewFile_facts(5) [OF 3] getBackupFileName_neq [of l w] same(1) by simp
  ultimately show ?thesis by simp
qed

text \<open>
  C3. With a file open (and a buffer within the maximum), \<^verbatim>\<open>Write\<close> rotates exactly
  when the size of the logger plus the length of the buffer, in \<^verbatim>\<open>int\<close>, is greater
  than the maximum: then its first call closes the open handle, the first step of the
  rotation, and when it returns no error the append is its last call, the new file holds
  the buffer alone, the size is the length of the buffer and the archive holds the
  compressed stream of the old file. Otherwise its only call is the append to the open
  handle; so a write that makes the size equal to the maximum does not rotate. The sum in
  \<^verbatim>\<open>int\<close> is the sum itself when that fits 64 bits.
\<close>

theorem Write_rotation_iff:
  "fd l = Some (File f) \<Longrightarrow> int (length p) \<le> max_l l \<Longrightarrow> Write l w p = (r, l', w') \<Longrightarrow>
   (max_l l < go_add (size_l l) (int (length p)) \<longrightarrow>
      (\<exists>evs. trace w' = trace w @ EvClose f # evs) \<and>
      (snd r = None \<longrightarrow>
         last (trace w') = EvWrite (Filename l) (length p) \<and>
         size_l l' = int (length p) \<and>
         files w' (Filename l) = Some \<lparr>data = p, perm = 493\<rparr> \<and>
         (\<exists>nd a. files w (Filename l) = Some nd \<and>
            files w' (getBackupFileName l w) = Some a \<and>
            data a = gz_body w (data nd) @ gz_tail w (data nd)))) \<and>
   (\<not> max_l l < go_add (size_l l) (int (length p)) \<longrightarrow>
      trace w' = trace w @ [EvWrite f (length p)]) \<and>
   (in_int64 (size_l l + int (length p)) \<longrightarrow>
      go_add (size_l l) (int (length p)) = size_l l + int (length p))"
proof (intro conjI impI)
  assume fd: "fd l = Some (File f)" and le: "int (length p) \<le> max_l l"
    and W: "Write l w p = (r, l', w')"
  let ?n = "int (length p)"
  obtain r2 l2 w2 where 2: "Write_prepare l w ?n = (r2, l2, w2)"
    by (cases "Write_prepare l w ?n")
  have later: "later w2 w'"
  proof -
    have "w' = w2 \<or> (\<exists>h. w' = snd (file_Write h p w2))"
      using W le 2
      by (auto simp: Write_unfold split_beta split: option.splits)
    then show ?thesis by auto
  qed
  {
    assume big: "max_l l < go_add (size_l l) ?n"
    with fd 2 have mk: "makeNewFile l w = (r2, l2, w2)" by (simp add: Write_prepare_open)
    from makeNewFile_facts(4) [OF mk fd] obtain evs where "trace w2 = trace w @ EvClose f # evs" ..
    moreover from later obtain evs' where "trace w' = trace w2 @ evs'" by (auto simp: later_def)
    ultimately show "\<exists>evs. trace w' = trace w @ EvClose f # evs" by simp
    assume ok: "snd r = None"
    with W obtain n where Wn: "Write l w p = ((n, None), l', w')" by (cases r) auto
    from Write_success_prepare [OF this] 2 obtain h nd where
      r2: "r2 = None" and h: "fd l2 = Some (File h)" and
      l': "l' = l2\<lparr>size_l := go_add (size_l l2) ?n\<rparr>" and
      c: "after_call (EvWrite h (length p)) w2 w'" and
      nd: "files w2 h = Some nd" "files w' h = Some (nd\<lparr>data := data nd @ p\<rparr>)"
      by auto
    from makeNewFile_facts(5) [OF mk r2] h
    have l2: "h = Filename l" "size_l l2 = 0"
      "files w2 (Filename l) = Some \<lparr>data = [], perm = 493\<rparr>" by auto
    show "last (trace w') = EvWrite (Filename l) (length p)"
      using c l2(1) by (simp add: after_call_def)
    show "size_l l' = ?n" using l' l2(2) le by (simp add: go_add_0_len)
    show "files w' (Filename l) = Some \<lparr>data = p, perm = 493\<rparr>"
      using nd l2 by auto
    from makeNewFile_archive [OF mk [unfolded r2]] obtain nd0 a where
      a: "files w (Filename l) = Some nd0" "files w2 (getBackupFileName l w) = Some a"
      "data a = gz_body w (data nd0) @ gz_tail w (data nd0)" by blast
    have "files w' (getBackupFileName l w) = files w2 (getBackupFileName l w)"
    proof -
      from Write_success_prepare [OF Wn] 2 h
      have "\<forall>q. q \<noteq> h \<longrightarrow> files w' q = files w2 q" by auto
      then show ?thesis using l2(1) getBackupFileName_neq [of l w] by simp
    qed
    with a show "\<exists>nd a. files w (Filename l) = Some nd \<and>
        files w' (getBackupFileName l w) = Some a \<and>
        data a = gz_body w (data nd) @ gz_tail w (data nd)" by simp
  }
  {
    assume fit: "\<not> max_l l < go_add (size_l l) ?n"
    with fd 2 have p2: "r2 = None" "l2 = l" "w2 = w" by (simp_all add: Write_prepare_open)
    obtain k e w3 where 3: "file_Write (File f) p w = ((k, e), w3)"
      by (cases "file_Write (File f) p w") auto
    with W le 2 p2 fd have "w' = w3" by (auto simp: Write_unfold split: option.splits)
    with file_Write_call [OF 3] show "trace w' = trace w @ [EvWrite f (length p)]"
      by (simp add: after_call_def)
  }
  show "in_int64 (size_l l + ?n) \<Longrightarrow> go_add (size_l l) ?n = size_l l + ?n"
    by (rule go_add_exact)
qed


lemma later_pending_Nil: "later w w' \<Longrightarrow> pending w = [] \<Longrightarrow> pending w' = []"
  by (auto simp: later_def)

lemma outcome_Nil [simp]: "outcome [] = None"
  by (simp add: outcome_def)

lemma gz_Close_ok: "outcome (pending w) = None \<Longrightarrow> fst (gz_Close gz w) = None"
  by (cases gz) (simp add: gz_Close_def split_beta split: File.splits)

lemma os_Remove_ok:
  "outcome (pending w) = None \<Longrightarrow> files w p = Some nd \<Longrightarrow> fst (os_Remove p w) = None"
  by (simp add: os_Remove_def split_beta)

lemma composeFile_ok:
  assumes p: "pending w = []" and nd: "files w (Filename l) = Some nd"
  shows "fst (composeFile l w) = None"
proof -
  let ?f = "Filename l" and ?dst = "getBackupFileName l w"
  have neq: "?f \<noteq> ?dst" using getBackupFileName_neq [of l w] by simp
  let ?w1 = "snd (sys (EvOpenFile ?f [O_RDONLY]) w)"
  let ?w2 = "snd (sys (EvStat ?f) ?w1)"
  let ?fi = "\<lparr>fi_size = int (length (data nd)), fi_mode = perm nd\<rparr>"
  have 1: "os_Open ?f w = (Inr (File ?f), ?w1)"
    using p nd by (intro os_Open_ok) simp_all
  have 2: "os_Stat ?f ?w1 = (Inr ?fi, ?w2)"
    using p nd by (intro os_Stat_ok) (simp_all add: sys_def)
  have n2: "getBackupFileName l ?w2 = ?dst"
    by (rule getBackupFileName_now) (simp add: sys_def)
  have p2: "pending ?w2 = []" using p by (simp add: sys_def)
  then obtain w3 where
    3: "os_OpenFile ?dst [O_CREATE, O_TRUNC, O_WRONLY] (fi_mode ?fi) ?w2 = (Inr (File ?dst), w3)"
    using os_OpenFile_create_ok [of ?w2 "[O_CREATE, O_TRUNC, O_WRONLY]" ?dst "fi_mode ?fi"]
    by auto
  have p3: "pending w3 = []"
    using os_OpenFile_call [OF 3] p2 by (simp add: after_call_def)
  have f3: "files w3 ?f = Some nd"
    using os_OpenFile_call [OF 3] neq nd by (simp add: sys_def)
  from p3 f3 obtain gz w4 where
    4: "io_Copy (GzWriter (File ?dst) []) (File ?f) w3 = ((None, gz), w4)"
    using io_Copy_ok [of w3 ?f nd ?dst "[]"] by auto
  from io_Copy_gz [OF 4] obtain pl where gz: "gz = GzWriter (File ?dst) pl" ..
  have p4: "pending w4 = []" and f4: "files w4 ?f = Some nd"
    using io_Copy_call [OF 4] p3 f3 neq by (simp_all add: after_call_def)
  obtain e5 w5 where 5: "gz_Close gz w4 = (e5, w5)" by (cases "gz_Close gz w4")
  have e5: "e5 = None" using gz_Close_ok [of w4 gz] p4 5 by simp
  have p5: "pending w5 = []" and f5: "files w5 ?f = Some nd"
    using gz_Close_call [OF 5 [unfolded gz]] p4 f4 neq by (simp_all add: after_call_def)
  obtain e6 w6 where 6: "os_Remove ?f w5 = (e6, w6)" by (cases "os_Remove ?f w5")
  have e6: "e6 = None" using os_Remove_ok [of w5 ?f nd] p5 f5 6 by simp
  from 1 2 3 4 5 6 e5 e6 show ?thesis
    by (simp add: composeFile_def n2 gzip_NewWriter_def)
qed

lemma makeNewFile_ok:
  assumes p: "pending w = []" and nd: "files w (Filename l) = Some nd"
  shows "fst (makeNewFile l w) = None"
proof -
  obtain r1 l1 w1 where 1: "close_l l w = (r1, l1, w1)" by (cases "close_l l w")
  note cl = close_l_facts [OF 1]
  have "fst (file_Close h w) = None" for h
    using p by (cases h) (simp add: fst_file_Close)
  then have r1: "r1 = None"
    using 1 by (auto simp: close_l_def split_beta split: option.splits)
  have p1: "pending w1 = []" using cl(3) p by (rule later_pending_Nil)
  have f1: "files w1 (Filename l1) = Some nd" using cl(1,2) nd by simp
  obtain r2 w2 where 2: "composeFile l1 w1 = (r2, w2)" by (cases "composeFile l1 w1")
  have r2: "r2 = None" using composeFile_ok [OF p1 f1] 2 by simp
  have p2: "pending w2 = []"
    using composeFile_facts(1) [OF 2] p1 by (rule later_pending_Nil)
  have "fst (openNewFile l1 w2) = None" using p2 by (intro openNewFile_ok) simp
  with 1 2 r1 r2 show ?thesis by (simp add: makeNewFile_def)
qed

lemma file_Write_ok_fst:
  "outcome (pending w) = None \<Longrightarrow> files w p = Some nd \<Longrightarrow>
   fst (file_Write (File p) bs w) = (int (length bs), None)"
  by (simp add: file_Write_ok)


lemma os_OpenFile_append_ok:
  "outcome (pending w) = None \<Longrightarrow> files w p = Some nd \<Longrightarrow>
   os_OpenFile p [O_WRONLY, O_APPEND] pm w
     = (Inr (File p), snd (sys (EvOpenFile p [O_WRONLY, O_APPEND]) w))"
  by (simp add: os_OpenFile_def split_beta)

lemma openFile_ok:
  assumes p: "pending w = []"
  shows "fst (openFile l w n) = None"
proof -
  let ?f = "Filename l"
  let ?w1 = "snd (sys (EvStat ?f) w)"
  have p1: "pending ?w1 = []" using p by (simp add: sys_def)
  show ?thesis
  proof (cases "files w ?f")
    case None
    then have "os_Stat ?f w = (Inl ENOENT, ?w1)" using p by (intro os_Stat_missing) simp_all
    moreover have "fst (openNewFile l ?w1) = None" using p1 by (intro openNewFile_ok) simp
    ultimately show ?thesis by (simp add: openFile_def)
  next
    case (Some nd)
    then have 1: "os_Stat ?f w
        = (Inr \<lparr>fi_size = int (length (data nd)), fi_mode = perm nd\<rparr>, ?w1)"
      using p by (intro os_Stat_ok) simp_all
    have "fst (makeNewFile l ?w1) = None"
      using p1 Some by (intro makeNewFile_ok [where nd = nd]) simp_all
    moreover have "os_OpenFile ?f [O_WRONLY, O_APPEND] 493 ?w1
        = (Inr (File ?f), snd (sys (EvOpenFile ?f [O_WRONLY, O_APPEND]) ?w1))"
      using p1 Some by (intro os_OpenFile_append_ok [where nd = nd]) simp_all
    ultimately show ?thesis using 1 by (simp add: openFile_def)
  qed
qed

lemma Write_ok:
  assumes p: "pending w = []" and le: "int (length p) \<le> max_l l"
    and fd: "fd l = None \<or> (fd l = Some (File (Filename l)) \<and> files w (Filename l) \<noteq> None)"
  shows "snd (fst (Write l w p)) = None"
proof -
  let ?n = "int (length p)" and ?f = "Filename l"
  obtain r1 l1 w1 where
    1: "(if fd l = None then openFile l w ?n else (None, l, w)) = (r1, l1, w1)"
    by (cases "if fd l = None then openFile l w ?n else (None, l, w)")
  have r1: "r1 = None" using 1 openFile_ok [OF p, of l ?n] by (auto split: if_splits)
  have s1: "fd l1 = Some (File ?f)" "files w1 ?f \<noteq> None" "pending w1 = []"
    "Filename l1 = ?f" "max_l l1 = max_l l"
  proof -
    show "fd l1 = Some (File ?f)" "files w1 ?f \<noteq> None"
      using 1 r1 fd openFile_facts(4) [of l w ?n r1 l1 w1] by (auto split: if_splits)
    show "pending w1 = []"
      using 1 p openFile_facts(3) [of l w ?n r1 l1 w1]
      by (auto split: if_splits intro: later_pending_Nil)
    show "Filename l1 = ?f"
      using 1 openFile_facts(1) [of l w ?n r1 l1 w1] by (auto split: if_splits)
    show "max_l l1 = max_l l"
      using 1 openFile_facts(2) [of l w ?n r1 l1 w1] by (auto split: if_splits intro: max_l_cong)
  qed
  obtain r2 l2 w2 where 2: "Write_prepare l w ?n = (r2, l2, w2)"
    by (cases "Write_prepare l w ?n")
  have s2: "r2 = None \<and> fd l2 = Some (File ?f) \<and> files w2 ?f \<noteq> None \<and> pending w2 = []"
  proof (cases "go_add (size_l l1) ?n > max_l l1")
    case True
    with 1 2 r1 have mk: "makeNewFile l1 w1 = (r2, l2, w2)" by (simp add: Write_prepare_def)
    from s1 obtain nd where "files w1 (Filename l1) = Some nd" by auto
    from makeNewFile_ok [OF s1(3) this] mk have "r2 = None" by simp
    with makeNewFile_facts(3,5) [OF mk] s1 show ?thesis
      by (auto intro: later_pending_Nil)
  next
    case False
    with 1 2 r1 have "r2 = None" "l2 = l1" "w2 = w1" by (simp_all add: Write_prepare_def)
    with s1 show ?thesis by simp
  qed
  then obtain nd where "files w2 ?f = Some nd" by auto
  with s2 have "fst (file_Write (File ?f) p w2) = (?n, None)"
    by (intro file_Write_ok_fst) simp_all
  with 2 s2 le show ?thesis by (simp add: Write_unfold split_beta)
qed


lemma ex_Write_half:
  "Write ex_logger_half ex_world_half (replicate 524288 (CHR ''b''))
     = ((524288, None), ex_logger_full, ex_world_full)"
  by (simp add: run_eval ex_logger_fields ex_logger_half_def ex_logger_full_def
      ex_world_half_def ex_world_full_def ex_world_def)

text \<open>
  The theorem at the example logger with a maximum of 1048576 bytes: with 524288 bytes in
  the file, a write of 524288 bytes fills the file to the maximum and does not rotate; the
  next write, of five bytes, rotates: it starts by closing the handle, the archive holds
  the two earlier writes and the new file the five bytes.
\<close>

theorem Write_rotation_iff_witness:
  "Write ex_logger_half ex_world_half (replicate 524288 (CHR ''b''))
     = ((524288, None), ex_logger_full, ex_world_full) \<and>
   trace ex_world_full = trace ex_world_half @ [EvWrite ''/var/log/app.log'' 524288] \<and>
   size_l ex_logger_full = max_l ex_logger_full \<and>
   (\<exists>evs. trace (snd (snd (Write ex_logger_full ex_world_full ''ABCDE'')))
      = trace ex_world_full @ EvClose ''/var/log/app.log'' # evs) \<and>
   fst (Write ex_logger_full ex_world_full ''ABCDE'') = (5, None) \<and>
   files (snd (snd (Write ex_logger_full ex_world_full ''ABCDE''))) ''/var/log/app.log''
     = Some \<lparr>data = ''ABCDE'', perm = 493\<rparr> \<and>
   (\<exists>a. files (snd (snd (Write ex_logger_full ex_world_full ''ABCDE'')))
          ''/var/log/2024-03-05-07-08-09-42-app.log.gz'' = Some a \<and>
        data a = ''gz['' @ replicate 524288 (CHR ''a'') @ replicate 524288 (CHR ''b'') @ '']'')"
proof -
  let ?b = "replicate 524288 (CHR ''b'')"
  have h1: "fd ex_logger_half = Some (File ''/var/log/app.log'')"
    "int (length ?b) \<le> max_l ex_logger_half"
    "\<not> max_l ex_logger_half < go_add (size_l ex_logger_half) (int (length ?b))"
    by (simp_all add: ex_logger_fields go_add_def wrap64_def)
  obtain r2 l2 w2 where 2: "Write ex_logger_full ex_world_full ''ABCDE'' = (r2, l2, w2)"
    by (cases "Write ex_logger_full ex_world_full ''ABCDE''")
  have h2: "fd ex_logger_full = Some (File ''/var/log/app.log'')"
    "int (length ''ABCDE'') \<le> max_l ex_logger_full"
    "max_l ex_logger_full < go_add (size_l ex_logger_full) (int (length ''ABCDE''))"
    by (simp_all add: ex_logger_fields go_add_def wrap64_def)
  have ok: "snd r2 = None"
    using Write_ok [of ex_world_full "''ABCDE''" ex_logger_full] 2
    by (simp add: ex_logger_fields ex_world_full_def ex_world_def)
  have n: "getBackupFileName ex_logger_full ex_world_full
      = ''/var/log/2024-03-05-07-08-09-42-app.log.gz''"
    using ex_getBackupFileName [of ex_world_full]
    by (simp add: getBackupFileName_def ex_logger_fields ex_Filename ex_world_full_def ex_world_def)
  from ok obtain a where r2: "r2 = (a, None)" by (cases r2) auto
  from Write_success_prepare [OF 2 [unfolded r2]] have a: "a = 5" by simp
  from Write_rotation_iff [OF h1(1,2) ex_Write_half] h1(3)
    Write_rotation_iff [OF h2(1,2) 2] h2(3) ok
  show ?thesis
    unfolding ex_Write_half 2 n r2 a
    by (auto simp: ex_logger_fields ex_world_full_def ex_world_def)
qed

subsection \<open>The size after a successful \<^verbatim>\<open>Write\<close>\<close>

text \<open>
  C10 as it is written fails: the size after a successful \<^verbatim>\<open>Write\<close> is not always the
  size before it plus the length of the buffer. The example logger with its file full
  (size 1048576) writes five bytes: the call rotates and the size is 5 afterwards. The
  example logger with no handle open (size 0) and a file \<^verbatim>\<open>hello\<close> on disk writes six
  bytes: the call opens the file and the size is 11 afterwards.
\<close>

theorem Write_success_not_added:
  "fst (Write ex_logger_full ex_world_full ''ABCDE'') = (5, None) \<and>
   size_l ex_logger_full = 1048576 \<and>
   size_l (fst (snd (Write ex_logger_full ex_world_full ''ABCDE''))) = 5 \<and>
   size_l (fst (snd (Write ex_logger_full ex_world_full ''ABCDE'')))
     \<noteq> size_l ex_logger_full + int (length ''ABCDE'') \<and>
   fst (Write ex_logger ex_world_file '' world'') = (6, None) \<and>
   size_l ex_logger = 0 \<and>
   size_l (fst (snd (Write ex_logger ex_world_file '' world''))) = 11 \<and>
   size_l (fst (snd (Write ex_logger ex_world_file '' world'')))
     \<noteq> size_l ex_logger + int (length '' world'')"
proof -
  obtain r2 l2 w2 where 2: "Write ex_logger_full ex_world_full ''ABCDE'' = (r2, l2, w2)"
    by (cases "Write ex_logger_full ex_world_full ''ABCDE''")
  have h2: "fd ex_logger_full = Some (File ''/var/log/app.log'')"
    "max_l ex_logger_full < go_add (size_l ex_logger_full) (int (length ''ABCDE''))"
    by (simp_all add: ex_logger_fields go_add_def wrap64_def)
  have "snd r2 = None"
    using Write_ok [of ex_world_full "''ABCDE''" ex_logger_full] 2
    by (simp add: ex_logger_fields ex_world_full_def ex_world_def)
  then obtain a where r2: "r2 = (a, None)" by (cases r2) auto
  from Write_success_prepare [OF 2 [unfolded r2]] have a: "a = 5" by simp
  from Write_rotation_resets(1) [OF h2 2 [unfolded r2]] have s: "size_l l2 = 5" by simp
  have 3: "fst (Write ex_logger ex_world_file '' world'') = (6, None)"
    "size_l (fst (snd (Write ex_logger ex_world_file '' world''))) = 11"
    by (simp_all add: run_eval ex_logger_fields ex_world_file_def ex_world_def)
  show ?thesis
    unfolding 2 r2 a
    by (simp add: s 3 ex_logger_fields)
qed

text \<open>
  The theorem at four writes of the example logger: the first write, which creates the
  file (size 0 + 5); a second write with the file open (5 + 6); a write of five bytes with
  the file full, which rotates (size 5, the new file holds the five bytes); and a write of
  six bytes with no handle open and the file \<^verbatim>\<open>hello\<close> on disk (size 11, the size of the
  file afterwards).
\<close>

theorem Write_success_witness:
  "Write ex_logger ex_world ''hello'' = ((5, None), ex_logger5, ex_world5) \<and>
   (5::int) = int (length ''hello'') \<and>
   size_l (ex_logger5\<lparr>size_l := 11\<rparr>) = go_add (size_l ex_logger5) (int (length '' world'')) \<and>
   go_add (size_l ex_logger5) (int (length '' world'')) = 5 + 6 \<and>
   fst (fst (Write ex_logger_full ex_world_full ''ABCDE'')) = int (length ''ABCDE'') \<and>
   size_l (fst (snd (Write ex_logger_full ex_world_full ''ABCDE''))) = int (length ''ABCDE'') \<and>
   files (snd (snd (Write ex_logger_full ex_world_full ''ABCDE''))) (Filename ex_logger_full)
     = Some \<lparr>data = ''ABCDE'', perm = 493\<rparr> \<and>
   fst (fst (Write ex_logger ex_world_file '' world'')) = int (length '' world'') \<and>
   (\<exists>nd. (files ex_world_file (Filename ex_logger) = Some nd \<or> data nd = []) \<and>
      size_l (fst (snd (Write ex_logger ex_world_file '' world'')))
        = go_add (int (length (data nd))) (int (length '' world'')) \<and>
      files (snd (snd (Write ex_logger ex_world_file '' world''))) (Filename ex_logger)
        = Some (nd\<lparr>data := data nd @ '' world''\<rparr>)) \<and>
   size_l (fst (snd (Write ex_logger ex_world_file '' world''))) = 11 \<and>
   files (snd (snd (Write ex_logger ex_world_file '' world''))) ''/var/log/app.log''
     = Some \<lparr>data = ''hello world'', perm = 420\<rparr>"
proof -
  obtain r2 l2 w2 where 2: "Write ex_logger_full ex_world_full ''ABCDE'' = (r2, l2, w2)"
    by (cases "Write ex_logger_full ex_world_full ''ABCDE''")
  have h2: "fd ex_logger_full \<noteq> None"
    "max_l ex_logger_full < go_add (size_l ex_logger_full) (int (length ''ABCDE''))"
    by (simp_all add: ex_logger_fields go_add_def wrap64_def)
  have "snd r2 = None"
    using Write_ok [of ex_world_full "''ABCDE''" ex_logger_full] 2
    by (simp add: ex_logger_fields ex_world_full_def ex_world_def)
  then obtain a where r2: "r2 = (a, None)" by (cases r2) auto
  obtain r3 l3 w3 where 3: "Write ex_logger ex_world_file '' world'' = (r3, l3, w3)"
    by (cases "Write ex_logger ex_world_file '' world''")
  have "snd r3 = None"
    using Write_ok [of ex_world_file "'' world''" ex_logger] 3
    by (simp add: ex_logger_fields ex_max ex_world_file_def ex_world_def)
  then obtain b where r3: "r3 = (b, None)" by (cases r3) auto
  have h5: "fd ex_logger5 \<noteq> None"
    "\<not> max_l ex_logger5 < go_add (size_l ex_logger5) (int (length '' world''))"
    by (simp_all add: ex_logger_fields go_add_def wrap64_def)
  have c1: "Write ex_logger ex_world ''hello'' = ((5, None), ex_logger5, ex_world5)"
    by (rule ex_Write1)
  have c2: "(5::int) = int (length ''hello'')"
    by (rule Write_success [OF ex_Write1, THEN conjunct1])
  have c3: "size_l (ex_logger5\<lparr>size_l := 11\<rparr>)
      = go_add (size_l ex_logger5) (int (length '' world''))"
    by (rule Write_success [OF ex_Write2, THEN conjunct2, THEN conjunct2, THEN conjunct1,
          rule_format, OF h5])
  have c4: "go_add (size_l ex_logger5) (int (length '' world'')) = 5 + 6"
    by (simp add: ex_logger_fields go_add_def wrap64_def)
  note T2 = Write_success [OF 2 [unfolded r2]]
  note T3 = Write_success [OF 3 [unfolded r3]]
  have c5: "fst (fst (Write ex_logger_full ex_world_full ''ABCDE'')) = int (length ''ABCDE'')"
    using T2 [THEN conjunct1] by (simp add: 2 r2)
  have c67: "size_l (fst (snd (Write ex_logger_full ex_world_full ''ABCDE'')))
        = int (length ''ABCDE'') \<and>
     files (snd (snd (Write ex_logger_full ex_world_full ''ABCDE''))) (Filename ex_logger_full)
        = Some \<lparr>data = ''ABCDE'', perm = 493\<rparr>"
    using T2 [THEN conjunct2, THEN conjunct2, THEN conjunct2, THEN conjunct1, rule_format, OF h2]
    by (simp add: 2)
  have c8: "fst (fst (Write ex_logger ex_world_file '' world'')) = int (length '' world'')"
    using T3 [THEN conjunct1] by (simp add: 3 r3)
  have c9: "\<exists>nd. (files ex_world_file (Filename ex_logger) = Some nd \<or> data nd = []) \<and>
      size_l (fst (snd (Write ex_logger ex_world_file '' world'')))
        = go_add (int (length (data nd))) (int (length '' world'')) \<and>
      files (snd (snd (Write ex_logger ex_world_file '' world''))) (Filename ex_logger)
        = Some (nd\<lparr>data := data nd @ '' world''\<rparr>)"
    using T3 [THEN conjunct2, THEN conjunct2, THEN conjunct2, THEN conjunct2, THEN conjunct1,
      rule_format, OF ex_logger_fields(1)]
    unfolding 3 by simp
  have c10: "size_l (fst (snd (Write ex_logger ex_world_file '' world''))) = 11"
    "files (snd (snd (Write ex_logger ex_world_file '' world''))) ''/var/log/app.log''
     = Some \<lparr>data = ''hello world'', perm = 420\<rparr>"
    by (simp_all add: run_eval ex_logger_fields ex_world_file_def ex_world_def)
  from c1 c2 c3 c4 c5 c67 c8 c9 c10 show ?thesis by blast
qed

subsection \<open>Opening a file when none is open: \<^verbatim>\<open>openFile\<close>\<close>

lemma makeNewFile_closed_trace:
  assumes "fd l = None" "makeNewFile l w = (None, l', w')"
  shows "trace w' = trace w @
     [EvOpenFile (Filename l) [O_RDONLY], EvStat (Filename l),
      EvOpenFile (getBackupFileName l w) [O_CREATE, O_TRUNC, O_WRONLY],
      EvCopy (Filename l) (getBackupFileName l w), EvGzClose (getBackupFileName l w),
      EvRemove (Filename l), EvClose (getBackupFileName l w), EvClose (Filename l),
      EvOpenFile (Filename l) [O_CREATE, O_WRONLY, O_TRUNC]]"
proof -
  have 1: "close_l l w = (None, l, w)" using assms(1) by (simp add: close_l_def)
  obtain r2 w2 where 2: "composeFile l w = (r2, w2)" by (cases "composeFile l w")
  from assms(2) 1 2 have r2: "r2 = None" and 3: "openNewFile l w2 = (None, l', w')"
    by (auto simp: makeNewFile_def split: option.splits)
  from composeFile_trace [OF 2 [unfolded r2]] openNewFile_facts(4) [OF 3]
  show ?thesis by simp
qed

lemma Write_after_open:
  assumes fd: "fd l = None" and o: "openFile l w (int (length p)) = (None, l1, w1)"
    and l1: "fd l1 = Some (File f)" "max_l l1 = max_l l"
    and w1: "files w1 f = Some nd" "pending w1 = []"
    and le: "int (length p) \<le> max_l l"
    and fits: "\<not> max_l l < go_add (size_l l1) (int (length p))"
  shows "\<exists>w'. Write l w p
        = ((int (length p), None), l1\<lparr>size_l := go_add (size_l l1) (int (length p))\<rparr>, w') \<and>
      files w' f = Some (nd\<lparr>data := data nd @ p\<rparr>) \<and>
      (\<forall>q. q \<noteq> f \<longrightarrow> files w' q = files w1 q) \<and>
      trace w' = trace w1 @ [EvWrite f (length p)]"
proof -
  let ?w' = "append_bytes f p (snd (sys (EvWrite f (length p)) w1))"
  have "file_Write (File f) p w1 = ((int (length p), None), ?w')"
    using w1 by (intro file_Write_ok [where nd = nd]) simp_all
  with o fd l1 le fits have "Write l w p
      = ((int (length p), None), l1\<lparr>size_l := go_add (size_l l1) (int (length p))\<rparr>, ?w')"
    by (simp add: Write_def Let_def)
  moreover have "files ?w' f = Some (nd\<lparr>data := data nd @ p\<rparr>)"
    "\<forall>q. q \<noteq> f \<longrightarrow> files ?w' q = files w1 q"
    "trace ?w' = trace w1 @ [EvWrite f (length p)]"
    using w1 by (simp_all add: files_append_bytes append_bytes_def sys_def split: option.splits)
  ultimately show ?thesis by blast
qed

text \<open>
  C6. A \<^verbatim>\<open>Write\<close> with no handle open (and a buffer within the maximum) first calls
  \<^verbatim>\<open>openFile\<close> with the length of the buffer. When every system call runs, \<^verbatim>\<open>openFile\<close>
  does one of three things. With no file at the path it creates an empty one (flags
  create, write-only, truncate) and the size starts at 0. With a file whose size plus the
  pending length is at least the maximum (\<^verbatim>\<open>>=\<close>, the sum being the sum of \<^verbatim>\<open>int\<close>) it
  rotates, without opening the file for append: the file is sealed into the archive and
  an empty file takes its place, size 0. Otherwise it opens the file with the flags
  write-only and append, leaves the files as they are and takes the size of the file as
  the current size. In each case the \<^verbatim>\<open>Write\<close> then appends its buffer to what
  \<^verbatim>\<open>openFile\<close> left: to nothing in the first two cases, to the earlier contents in the
  third.
\<close>

theorem openFile_resolves:
  "fd l = None \<Longrightarrow> pending w = [] \<Longrightarrow> int (length p) = n \<Longrightarrow> n \<le> max_l l \<Longrightarrow>
   (files w (Filename l) = None \<longrightarrow>
      (\<exists>w'. openFile l w n = (None, l\<lparr>fd := Some (File (Filename l)), size_l := 0\<rparr>, w') \<and>
         files w' (Filename l) = Some \<lparr>data = [], perm = 493\<rparr> \<and>
         trace w' = trace w @
           [EvStat (Filename l), EvOpenFile (Filename l) [O_CREATE, O_WRONLY, O_TRUNC]]) \<and>
      (\<exists>l' w'. Write l w p = ((n, None), l', w') \<and> size_l l' = n \<and>
         files w' (Filename l) = Some \<lparr>data = p, perm = 493\<rparr>)) \<and>
   (\<forall>nd. files w (Filename l) = Some nd \<longrightarrow> max_l l \<le> go_add (int (length (data nd))) n \<longrightarrow>
      (\<exists>w' a. openFile l w n = (None, l\<lparr>fd := Some (File (Filename l)), size_l := 0\<rparr>, w') \<and>
         files w' (Filename l) = Some \<lparr>data = [], perm = 493\<rparr> \<and>
         files w' (getBackupFileName l w) = Some a \<and>
         data a = gz_body w (data nd) @ gz_tail w (data nd) \<and>
         trace w' = trace w @
           [EvStat (Filename l),
            EvOpenFile (Filename l) [O_RDONLY], EvStat (Filename l),
            EvOpenFile (getBackupFileName l w) [O_CREATE, O_TRUNC, O_WRONLY],
            EvCopy (Filename l) (getBackupFileName l w), EvGzClose (getBackupFileName l w),
            EvRemove (Filename l), EvClose (getBackupFileName l w), EvClose (Filename l),
            EvOpenFile (Filename l) [O_CREATE, O_WRONLY, O_TRUNC]]) \<and>
      (\<exists>l' w' a. Write l w p = ((n, None), l', w') \<and> size_l l' = n \<and>
         files w' (Filename l) = Some \<lparr>data = p, perm = 493\<rparr> \<and>
         files w' (getBackupFileName l w) = Some a \<and>
         data a = gz_body w (data nd) @ gz_tail w (data nd))) \<and>
   (\<forall>nd. files w (Filename l) = Some nd \<longrightarrow> go_add (int (length (data nd))) n < max_l l \<longrightarrow>
      (\<exists>w'. openFile l w n
            = (None, l\<lparr>fd := Some (File (Filename l)), size_l := int (length (data nd))\<rparr>, w') \<and>
         files w' = files w \<and>
         trace w' = trace w @
           [EvStat (Filename l), EvOpenFile (Filename l) [O_WRONLY, O_APPEND]]) \<and>
      (\<exists>l' w'. Write l w p = ((n, None), l', w') \<and>
         size_l l' = go_add (int (length (data nd))) n \<and>
         files w' (Filename l) = Some (nd\<lparr>data := data nd @ p\<rparr>))) \<and>
   (\<forall>nd. in_int64 (int (length (data nd)) + n) \<longrightarrow>
      go_add (int (length (data nd))) n = int (length (data nd)) + n)"
proof -
  assume fd: "fd l = None" and p: "pending w = []" and n: "int (length p) = n" "n \<le> max_l l"
  let ?f = "Filename l"
  let ?w1 = "snd (sys (EvStat ?f) w)"
  let ?l0 = "l\<lparr>fd := Some (File ?f), size_l := 0\<rparr>"
  have p1: "pending ?w1 = []" using p by (simp add: sys_def)
  have t1: "trace ?w1 = trace w @ [EvStat ?f]" by (simp add: sys_def)
  have n0: "go_add 0 n = n" using n by (intro go_add_0_len [of n l]) auto
  have W0: "\<exists>l' w'. Write l w p = ((n, None), l', w') \<and> size_l l' = n \<and>
         files w' ?f = Some \<lparr>data = p, perm = 493\<rparr> \<and> (\<forall>q. q \<noteq> ?f \<longrightarrow> files w' q = files w0 q)"
    if o: "openFile l w n = (None, ?l0, w0)"
      and w0: "files w0 ?f = Some \<lparr>data = [], perm = 493\<rparr>" "pending w0 = []" for w0
    using Write_after_open [OF fd o [folded n(1)] _ _ w0] n n0 by auto
  have A: "\<exists>w'. openFile l w n = (None, ?l0, w') \<and>
         files w' ?f = Some \<lparr>data = [], perm = 493\<rparr> \<and>
         trace w' = trace w @ [EvStat ?f, EvOpenFile ?f [O_CREATE, O_WRONLY, O_TRUNC]] \<and>
         pending w' = []"
    if none: "files w ?f = None"
  proof -
    from none have 1: "os_Stat ?f w = (Inl ENOENT, ?w1)" using p by (intro os_Stat_missing) simp_all
    obtain r2 l2 w2 where 2: "openNewFile l ?w1 = (r2, l2, w2)" by (cases "openNewFile l ?w1")
    have r2: "r2 = None" using openNewFile_ok [of ?w1 l] p1 2 by simp
    from openNewFile_facts(4,6) [OF 2] r2 none t1
    have "l2 = ?l0"
      "files w2 ?f = Some \<lparr>data = [], perm = 493\<rparr>"
      "trace w2 = trace w @ [EvStat ?f, EvOpenFile ?f [O_CREATE, O_WRONLY, O_TRUNC]]"
      by simp_all
    moreover have "pending w2 = []"
      using openNewFile_facts(3) [OF 2] p1 by (rule later_pending_Nil)
    ultimately show ?thesis using 1 2 r2 by (simp add: openFile_def)
  qed
  have stat: "os_Stat ?f w = (Inr \<lparr>fi_size = int (length (data nd)), fi_mode = perm nd\<rparr>, ?w1)"
    if "files w ?f = Some nd" for nd
    using that p by (intro os_Stat_ok) simp_all
  have same: "getBackupFileName l ?w1 = getBackupFileName l w" "gz_body ?w1 = gz_body w"
    "gz_tail ?w1 = gz_tail w" "files ?w1 = files w"
    by (simp_all add: getBackupFileName_def sys_def)
  have B: "\<exists>w' a. openFile l w n = (None, ?l0, w') \<and>
         files w' ?f = Some \<lparr>data = [], perm = 493\<rparr> \<and>
         files w' (getBackupFileName l w) = Some a \<and>
         data a = gz_body w (data nd) @ gz_tail w (data nd) \<and>
         trace w' = trace w @
           [EvStat ?f, EvOpenFile ?f [O_RDONLY], EvStat ?f,
            EvOpenFile (getBackupFileName l w) [O_CREATE, O_TRUNC, O_WRONLY],
            EvCopy ?f (getBackupFileName l w), EvGzClose (getBackupFileName l w),
            EvRemove ?f, EvClose (getBackupFileName l w), EvClose ?f,
            EvOpenFile ?f [O_CREATE, O_WRONLY, O_TRUNC]] \<and>
         pending w' = []"
    if nd: "files w ?f = Some nd" and big: "max_l l \<le> go_add (int (length (data nd))) n" for nd
  proof -
    from stat [OF nd] big have o: "openFile l w n = makeNewFile l ?w1" by (simp add: openFile_def)
    obtain r3 l3 w3 where 3: "makeNewFile l ?w1 = (r3, l3, w3)" by (cases "makeNewFile l ?w1")
    have r3: "r3 = None" using makeNewFile_ok [of ?w1 l nd] p1 nd 3 by simp
    note 3 = 3 [unfolded r3]
    from makeNewFile_closed_trace [OF fd 3]
    have tr: "trace w3 = trace w @
           [EvStat ?f, EvOpenFile ?f [O_RDONLY], EvStat ?f,
            EvOpenFile (getBackupFileName l w) [O_CREATE, O_TRUNC, O_WRONLY],
            EvCopy ?f (getBackupFileName l w), EvGzClose (getBackupFileName l w),
            EvRemove ?f, EvClose (getBackupFileName l w), EvClose ?f,
            EvOpenFile ?f [O_CREATE, O_WRONLY, O_TRUNC]]"
      by (simp add: same t1)
    from makeNewFile_facts(5) [OF 3]
    have l3: "l3 = ?l0"
      "files w3 ?f = Some \<lparr>data = [], perm = 493\<rparr>" by simp_all
    have p3: "pending w3 = []"
      using makeNewFile_facts(3) [OF 3] p1 by (rule later_pending_Nil)
    from makeNewFile_archive [OF 3] nd same obtain a where
      "files w3 (getBackupFileName l w) = Some a"
      "data a = gz_body w (data nd) @ gz_tail w (data nd)" by auto
    with o 3 tr l3 p3 show ?thesis by simp
  qed
  have C: "\<exists>w'. openFile l w n
            = (None, l\<lparr>fd := Some (File ?f), size_l := int (length (data nd))\<rparr>, w') \<and>
         files w' = files w \<and>
         trace w' = trace w @ [EvStat ?f, EvOpenFile ?f [O_WRONLY, O_APPEND]] \<and>
         pending w' = []"
    if nd: "files w ?f = Some nd" and small: "go_add (int (length (data nd))) n < max_l l" for nd
  proof -
    have "os_OpenFile ?f [O_WRONLY, O_APPEND] 493 ?w1
        = (Inr (File ?f), snd (sys (EvOpenFile ?f [O_WRONLY, O_APPEND]) ?w1))"
      using p1 nd by (intro os_OpenFile_append_ok [where nd = nd]) simp_all
    with stat [OF nd] small show ?thesis
      using p by (simp add: openFile_def sys_def)
  qed
  have A': "\<exists>l' w'. Write l w p = ((n, None), l', w') \<and> size_l l' = n \<and>
         files w' ?f = Some \<lparr>data = p, perm = 493\<rparr>"
    if none: "files w ?f = None"
    using A [OF none] W0 by blast
  have B': "\<exists>l' w' a. Write l w p = ((n, None), l', w') \<and> size_l l' = n \<and>
         files w' ?f = Some \<lparr>data = p, perm = 493\<rparr> \<and>
         files w' (getBackupFileName l w) = Some a \<and>
         data a = gz_body w (data nd) @ gz_tail w (data nd)"
    if nd: "files w ?f = Some nd" and big: "max_l l \<le> go_add (int (length (data nd))) n" for nd
  proof -
    from B [OF nd big] obtain w0 a where o: "openFile l w n = (None, ?l0, w0)"
      and w0: "files w0 ?f = Some \<lparr>data = [], perm = 493\<rparr>" "pending w0 = []"
      and a: "files w0 (getBackupFileName l w) = Some a"
        "data a = gz_body w (data nd) @ gz_tail w (data nd)" by blast
    from W0 [OF o w0] obtain l' w' where "Write l w p = ((n, None), l', w')" "size_l l' = n"
      "files w' ?f = Some \<lparr>data = p, perm = 493\<rparr>" "\<forall>q. q \<noteq> ?f \<longrightarrow> files w' q = files w0 q"
      by blast
    with a getBackupFileName_neq [of l w] show ?thesis by auto
  qed
  have C': "\<exists>l' w'. Write l w p = ((n, None), l', w') \<and>
            size_l l' = go_add (int (length (data nd))) n \<and>
            files w' ?f = Some (nd\<lparr>data := data nd @ p\<rparr>)"
    if nd: "files w ?f = Some nd" and small: "go_add (int (length (data nd))) n < max_l l" for nd
  proof -
    from C [OF nd small] obtain w2 where
      o: "openFile l w n
            = (None, l\<lparr>fd := Some (File ?f), size_l := int (length (data nd))\<rparr>, w2)"
      and w2: "files w2 = files w" "pending w2 = []" by blast
    from Write_after_open [OF fd o [folded n(1)], where f = ?f and nd = nd] w2 nd n small
    show ?thesis by auto
  qed
  from A B C have
    "files w ?f = None \<longrightarrow>
      (\<exists>w'. openFile l w n = (None, ?l0, w') \<and>
         files w' ?f = Some \<lparr>data = [], perm = 493\<rparr> \<and>
         trace w' = trace w @ [EvStat ?f, EvOpenFile ?f [O_CREATE, O_WRONLY, O_TRUNC]])"
    "\<forall>nd. files w ?f = Some nd \<longrightarrow> max_l l \<le> go_add (int (length (data nd))) n \<longrightarrow>
      (\<exists>w' a. openFile l w n = (None, ?l0, w') \<and>
         files w' ?f = Some \<lparr>data = [], perm = 493\<rparr> \<and>
         files w' (getBackupFileName l w) = Some a \<and>
         data a = gz_body w (data nd) @ gz_tail w (data nd) \<and>
         trace w' = trace w @
           [EvStat ?f, EvOpenFile ?f [O_RDONLY], EvStat ?f,
            EvOpenFile (getBackupFileName l w) [O_CREATE, O_TRUNC, O_WRONLY],
            EvCopy ?f (getBackupFileName l w), EvGzClose (getBackupFileName l w),
            EvRemove ?f, EvClose (getBackupFileName l w), EvClose ?f,
            EvOpenFile ?f [O_CREATE, O_WRONLY, O_TRUNC]])"
    "\<forall>nd. files w ?f = Some nd \<longrightarrow> go_add (int (length (data nd))) n < max_l l \<longrightarrow>
      (\<exists>w'. openFile l w n
            = (None, l\<lparr>fd := Some (File ?f), size_l := int (length (data nd))\<rparr>, w') \<and>
         files w' = files w \<and>
         trace w' = trace w @ [EvStat ?f, EvOpenFile ?f [O_WRONLY, O_APPEND]])"
    by blast+
  with A' B' C' show ?thesis by (simp add: go_add_exact)
qed

text \<open>
  The theorem at the example logger (maximum 1048576, no handle open) and a buffer of five
  or six bytes. With no file, an empty file is created. With a file of 1048576 bytes, the
  file is sealed into the archive and an empty file takes its place. With the file
  \<^verbatim>\<open>hello\<close>, the file is opened for append with the size 5, and the write of six bytes
  makes it \<^verbatim>\<open>hello world\<close>, size 11.
\<close>

theorem openFile_resolves_witness:
  "(\<exists>w'. openFile ex_logger ex_world 5
       = (None, ex_logger\<lparr>fd := Some (File ''/var/log/app.log''), size_l := 0\<rparr>, w') \<and>
      files w' ''/var/log/app.log'' = Some \<lparr>data = [], perm = 493\<rparr> \<and>
      trace w' = [EvStat ''/var/log/app.log'',
                  EvOpenFile ''/var/log/app.log'' [O_CREATE, O_WRONLY, O_TRUNC]]) \<and>
   (\<exists>w' a. openFile ex_logger ex_world_full 5
       = (None, ex_logger\<lparr>fd := Some (File ''/var/log/app.log''), size_l := 0\<rparr>, w') \<and>
      files w' ''/var/log/app.log'' = Some \<lparr>data = [], perm = 493\<rparr> \<and>
      files w' ''/var/log/2024-03-05-07-08-09-42-app.log.gz'' = Some a \<and>
      data a = ''gz['' @ replicate 524288 (CHR ''a'') @ replicate 524288 (CHR ''b'') @ '']'') \<and>
   (\<exists>w'. openFile ex_logger ex_world_file 6
       = (None, ex_logger\<lparr>fd := Some (File ''/var/log/app.log''), size_l := 5\<rparr>, w') \<and>
      files w' = files ex_world_file \<and>
      trace w' = [EvStat ''/var/log/app.log'',
                  EvOpenFile ''/var/log/app.log'' [O_WRONLY, O_APPEND]]) \<and>
   (\<exists>l' w'. Write ex_logger ex_world_file '' world'' = ((6, None), l', w') \<and>
      size_l l' = 11 \<and>
      files w' ''/var/log/app.log'' = Some \<lparr>data = ''hello world'', perm = 420\<rparr>)"
proof -
  have l: "fd ex_logger = None" "Filename ex_logger = ''/var/log/app.log''"
    "max_l ex_logger = 1048576"
    by (simp_all add: ex_logger_fields ex_Filename ex_max)
  have w: "pending ex_world = []" "files ex_world ''/var/log/app.log'' = None"
    "trace ex_world = []"
    by (simp_all add: ex_world_def)
  have wf: "pending ex_world_file = []" "trace ex_world_file = []"
    "files ex_world_file ''/var/log/app.log'' = Some \<lparr>data = ''hello'', perm = 420\<rparr>"
    by (simp_all add: ex_world_file_def ex_world_def)
  have wl: "pending ex_world_full = []"
    "files ex_world_full ''/var/log/app.log''
       = Some \<lparr>data = replicate 524288 (CHR ''a'') @ replicate 524288 (CHR ''b''), perm = 493\<rparr>"
    "gz_body ex_world_full = (\<lambda>d. ''gz['' @ d)" "gz_tail ex_world_full = (\<lambda>d. '']'')"
    by (simp_all add: ex_world_full_def ex_world_def)
  have n: "getBackupFileName ex_logger ex_world_full
      = ''/var/log/2024-03-05-07-08-09-42-app.log.gz''"
    using ex_getBackupFileName [of ex_world_full]
    by (simp add: ex_world_full_def ex_world_def)
  let ?full = "\<lparr>data = replicate 524288 (CHR ''a'') @ replicate 524288 (CHR ''b''), perm = 493\<rparr>"
  let ?hello = "\<lparr>data = ''hello'', perm = 420\<rparr>"
  have c2: "max_l ex_logger \<le> go_add (int (length (data ?full))) 5"
    by (simp add: l go_add_def wrap64_def)
  have c3: "go_add (int (length (data ?hello))) 6 < max_l ex_logger"
    "go_add (int (length (data ?hello))) 6 = 11"
    "int (length '' world'') = 6" "6 \<le> max_l ex_logger"
    by (simp_all add: l go_add_def wrap64_def)
  have c5: "int (length ''ABCDE'') = 5" "5 \<le> max_l ex_logger" by (simp_all add: l)
  note T1 = openFile_resolves [OF l(1) w(1) c5, THEN conjunct1, rule_format,
      unfolded l(2), OF w(2), THEN conjunct1]
  note T2 = openFile_resolves [OF l(1) wl(1) c5, THEN conjunct2, THEN conjunct1,
      rule_format, unfolded l(2), OF wl(2) c2, THEN conjunct1]
  note T3 = openFile_resolves [OF l(1) wf(1) c3(3,4),
      THEN conjunct2, THEN conjunct2, THEN conjunct1, rule_format, unfolded l(2),
      OF wf(3) c3(1)]
  have "\<exists>w' a. openFile ex_logger ex_world_full 5
       = (None, ex_logger\<lparr>fd := Some (File ''/var/log/app.log''), size_l := 0\<rparr>, w') \<and>
      files w' ''/var/log/app.log'' = Some \<lparr>data = [], perm = 493\<rparr> \<and>
      files w' ''/var/log/2024-03-05-07-08-09-42-app.log.gz'' = Some a \<and>
      data a = ''gz['' @ replicate 524288 (CHR ''a'') @ replicate 524288 (CHR ''b'') @ '']''"
    using T2 unfolding n wl(3,4) by auto
  moreover from T3 [THEN conjunct2]
  have "\<exists>l' w'. Write ex_logger ex_world_file '' world'' = ((6, None), l', w') \<and>
      size_l l' = 11 \<and>
      files w' ''/var/log/app.log'' = Some \<lparr>data = ''hello world'', perm = 420\<rparr>"
    unfolding c3(2) by simp
  moreover note T1 [unfolded w(3)] T3 [THEN conjunct1, unfolded wf(2)]
  ultimately show ?thesis by simp
qed

subsection \<open>Runs of \<^verbatim>\<open>Write\<close> calls\<close>





lemma file_len_nonneg [simp]: "0 \<le> file_len w p"
  by (simp add: file_len_def split: option.splits)















end
